theory Spec2Isabelle
  imports Main
begin

section \<open>Raw storage\<close>

text \<open>
  The free store holds the blocks handed out by \<^verbatim>\<open>operator new\<close>. A block of
  \<^verbatim>\<open>RawMemory<T>\<close> is a row of slots; a slot is either raw storage (\<open>None\<close>) or holds
  a live object of \<open>T\<close> with some value (\<open>Some v\<close>). The address of a block is its index in
  \<open>blocks\<close>; a released block leaves \<open>None\<close> behind, so an address is never handed out
  twice. \<open>free_slots\<close> is what the allocator can still give: a request beyond it is the
  \<^verbatim>\<open>std::bad_alloc\<close> of \<^verbatim>\<open>operator new\<close>.

  Sizes and capacities are \<open>nat\<close>. The one computation in \<^verbatim>\<open>size_t\<close> that a caller can
  drive out of range is the byte count \<^verbatim>\<open>n * sizeof(T)\<close> of \<^verbatim>\<open>Allocate\<close>: it is taken
  modulo \<open>SIZE_MAX + 1\<close>, with \<^verbatim>\<open>size_t\<close> of 64 bits. Nothing is lost with
  \<^verbatim>\<open>Capacity() * 2\<close>: where it would wrap, the byte count wraps as well, to the same
  value whichever way the capacity is read, and the block asked for is too small for the
  elements of the vector (lemmas \<open>doubling_byte_count\<close>, \<open>granted_growth\<close> and
  \<open>doubling_fits_size_t\<close>). The places where the source subtracts below zero are written
  out as undefined behaviour.
\<close>

type_synonym addr = nat

type_synonym 'a block = "'a option list"

record 'a heap =
  blocks :: "'a block option list"
  free_slots :: nat

text \<open>A \<^verbatim>\<open>T*\<close>: the block it points into (\<open>None\<close> is \<^verbatim>\<open>nullptr\<close>) and the slot offset.\<close>

datatype ptr = Ptr (base: "addr option") (off: nat)

definition ptr_add :: "ptr \<Rightarrow> nat \<Rightarrow> ptr" where
  "ptr_add p k = Ptr (base p) (off p + k)"

datatype exn = BadAlloc | ElemThrew

text \<open>
  What a call does: it returns a value, or an exception leaves it, or its behaviour is
  undefined (a failed \<^verbatim>\<open>assert\<close>, a read of raw storage, an access outside a block, a
  double release). The first two carry the state the caller sees afterwards.
\<close>

datatype ('r, 's) outcome = Returns 'r 's | Throws exn 's | Undefined

definition block_at :: "'a heap \<Rightarrow> addr option \<Rightarrow> 'a block option" where
  "block_at h p =
     (case p of
        None \<Rightarrow> None
      | Some a \<Rightarrow> if a < length (blocks h) then blocks h ! a else None)"

text \<open>\<open>peek\<close> reads the live object a pointer refers to; \<open>poke\<close> sets the state of a slot.\<close>

definition peek :: "'a heap \<Rightarrow> ptr \<Rightarrow> 'a option" where
  "peek h p =
     (case block_at h (base p) of
        None \<Rightarrow> None
      | Some blk \<Rightarrow> if off p < length blk then blk ! off p else None)"

definition poke :: "ptr \<Rightarrow> 'a option \<Rightarrow> 'a heap \<Rightarrow> 'a heap option" where
  "poke p s h =
     (case base p of
        None \<Rightarrow> None
      | Some a \<Rightarrow>
          (case block_at h (Some a) of
             None \<Rightarrow> None
           | Some blk \<Rightarrow>
               if off p < length blk
               then Some (h\<lparr>blocks := (blocks h)[a := Some (blk[off p := s])]\<rparr>)
               else None))"

section \<open>The element type\<close>

text \<open>
  What the vector needs to know of \<open>T\<close>. \<open>sizeof\<close> is \<^verbatim>\<open>sizeof(T)\<close>. \<open>nothrow_move\<close> is
  the condition of the \<^verbatim>\<open>if constexpr\<close>:
  \<^verbatim>\<open>is_nothrow_move_constructible_v<T> || !is_copy_constructible_v<T>\<close>.
  \<open>throws v\<close> says that building a new object of value \<open>v\<close> from constructor arguments or
  by copy construction throws. \<open>move_throws v\<close> says that move construction from an object
  of value \<open>v\<close> throws: never for a \<open>T\<close> with a non-throwing move constructor; for a \<open>T\<close>
  without a move constructor the copy constructor is called, so that \<open>move_throws\<close> is
  \<open>throws\<close>. \<open>moved v\<close> is the value a move leaves in its source (\<open>v\<close> itself for
  \<^verbatim>\<open>int\<close> and where the move is a copy, the empty vector for \<^verbatim>\<open>std::vector<int>\<close>); a move
  that throws leaves its source as it was. \<open>init\<close> is the value of \<^verbatim>\<open>T()\<close>, and
  \<open>init_throws\<close> says that \<^verbatim>\<open>T()\<close> throws. Move assignment and copy assignment are taken
  not to throw.
\<close>

record 'a elem =
  sizeof :: nat
  nothrow_move :: bool
  throws :: "'a \<Rightarrow> bool"
  move_throws :: "'a \<Rightarrow> bool"
  moved :: "'a \<Rightarrow> 'a"
  init :: 'a
  init_throws :: bool

section \<open>Allocation\<close>

text \<open>
  \<open>size_t n\<close> is the value that a computation with the mathematical result \<open>n\<close> has in
  \<^verbatim>\<open>size_t\<close>. \<^verbatim>\<open>operator new(bytes)\<close> gives a fresh block of \<open>bytes\<close> bytes, which has room
  for \<open>bytes div sizeof(T)\<close> objects of \<open>T\<close>, or throws \<^verbatim>\<open>std::bad_alloc\<close>.
\<close>

definition SIZE_MAX :: nat where
  "SIZE_MAX = 2 ^ 64 - 1"

definition size_t :: "nat \<Rightarrow> nat" where
  "size_t n = n mod (SIZE_MAX + 1)"

definition operator_new :: "'a elem \<Rightarrow> nat \<Rightarrow> 'a heap \<Rightarrow> exn + (addr option \<times> 'a heap)" where
  "operator_new E bytes h =
     (if free_slots h < bytes div sizeof E then Inl BadAlloc
      else Inr (Some (length (blocks h)),
                h\<lparr>blocks := blocks h @ [Some (replicate (bytes div sizeof E) None)],
                  free_slots := free_slots h - bytes div sizeof E\<rparr>))"

text \<open>
  \<^verbatim>\<open>RawMemory::Allocate\<close> and \<^verbatim>\<open>RawMemory::Deallocate\<close>. The capacity that
  \<^verbatim>\<open>RawMemory(size_t capacity)\<close> records is \<open>n\<close>, whatever the product came to.
\<close>

definition Allocate :: "'a elem \<Rightarrow> nat \<Rightarrow> 'a heap \<Rightarrow> exn + (addr option \<times> 'a heap)" where
  "Allocate E n h =
     (if n \<noteq> 0 then operator_new E (size_t (n * sizeof E)) h
      else Inr (None, h))"

definition Deallocate :: "addr option \<Rightarrow> 'a heap \<Rightarrow> 'a heap option" where
  "Deallocate buf h =
     (case buf of
        None \<Rightarrow> Some h
      | Some a \<Rightarrow>
          (case block_at h (Some a) of
             None \<Rightarrow> None
           | Some blk \<Rightarrow>
               Some (h\<lparr>blocks := (blocks h)[a := None],
                       free_slots := free_slots h + length blk\<rparr>)))"

section \<open>\<^verbatim>\<open>RawMemory\<close>\<close>

text \<open>The members \<^verbatim>\<open>buffer_\<close> and \<^verbatim>\<open>capacity_\<close> are written \<open>buffer_m\<close> and \<open>capacity_m\<close>.\<close>

record RawMemory =
  buffer_m :: "addr option"
  capacity_m :: nat

definition RawMemory_default :: RawMemory where
  "RawMemory_default = \<lparr>buffer_m = None, capacity_m = 0\<rparr>"

definition RawMemory_new :: "'a elem \<Rightarrow> nat \<Rightarrow> 'a heap \<Rightarrow> exn + (RawMemory \<times> 'a heap)" where
  "RawMemory_new E capacity h =
     (case Allocate E capacity h of
        Inl e \<Rightarrow> Inl e
      | Inr (p, h') \<Rightarrow> Inr (\<lparr>buffer_m = p, capacity_m = capacity\<rparr>, h'))"

definition GetAddress :: "RawMemory \<Rightarrow> ptr" where
  "GetAddress m = Ptr (buffer_m m) 0"

definition RawMemory_Capacity :: "RawMemory \<Rightarrow> nat" where
  "RawMemory_Capacity m = capacity_m m"

text \<open>
  The move constructor initialises the new object from \<^verbatim>\<open>other.GetAddress()\<close> and
  \<^verbatim>\<open>other.Capacity()\<close>; both are returned by value, so \<^verbatim>\<open>std::move\<close> of them changes
  nothing in \<^verbatim>\<open>other\<close>. The result is the new object and \<^verbatim>\<open>other\<close> after the call.
\<close>

definition RawMemory_move_ctor :: "RawMemory \<Rightarrow> RawMemory \<times> RawMemory" where
  "RawMemory_move_ctor other =
     (\<lparr>buffer_m = buffer_m other, capacity_m = RawMemory_Capacity other\<rparr>, other)"

text \<open>
  Move assignment. Its body is the two member assignments, which leave \<^verbatim>\<open>*this\<close> and
  \<^verbatim>\<open>rhs\<close> as \<open>RawMemory_move_assign_body\<close> says. Then control reaches the closing brace of
  a function that returns \<^verbatim>\<open>RawMemory&\<close> without a \<^verbatim>\<open>return\<close> statement: the behaviour of
  the call is undefined (\<open>None\<close>).
\<close>

definition RawMemory_move_assign_body :: "RawMemory \<Rightarrow> RawMemory \<Rightarrow> RawMemory \<times> RawMemory" where
  "RawMemory_move_assign_body this rhs =
     (this\<lparr>buffer_m := buffer_m rhs, capacity_m := RawMemory_Capacity rhs\<rparr>, rhs)"

definition RawMemory_move_assign :: "RawMemory \<Rightarrow> RawMemory \<Rightarrow> (RawMemory \<times> RawMemory) option" where
  "RawMemory_move_assign this rhs =
     (case RawMemory_move_assign_body this rhs of (this', rhs') \<Rightarrow> None)"

definition RawMemory_dtor :: "RawMemory \<Rightarrow> 'a heap \<Rightarrow> 'a heap option" where
  "RawMemory_dtor m h = Deallocate (buffer_m m) h"

text \<open>
  \<^verbatim>\<open>operator+\<close>: the \<^verbatim>\<open>assert(offset <= capacity_)\<close> is compiled out of a release build;
  a pointer outside its block is caught where it is dereferenced.
\<close>

definition RawMemory_plus :: "RawMemory \<Rightarrow> nat \<Rightarrow> ptr" where
  "RawMemory_plus m offset = Ptr (buffer_m m) offset"

definition RawMemory_Swap :: "RawMemory \<Rightarrow> RawMemory \<Rightarrow> RawMemory \<times> RawMemory" where
  "RawMemory_Swap this other =
     (this\<lparr>buffer_m := buffer_m other, capacity_m := capacity_m other\<rparr>,
      other\<lparr>buffer_m := buffer_m this, capacity_m := capacity_m this\<rparr>)"

section \<open>Constructor arguments\<close>

text \<open>
  The constructor arguments of \<^verbatim>\<open>Emplace\<close>, \<^verbatim>\<open>EmplaceBack\<close>, \<^verbatim>\<open>Insert\<close> and
  \<^verbatim>\<open>PushBack\<close>: an object outside the free store with the given value (\<open>Val\<close>), or a
  \<^verbatim>\<open>const T&\<close> to an object in a slot (\<open>Ref\<close>), which may be an element of the vector
  itself.
\<close>

datatype 'a arg = Val 'a | Ref ptr

definition arg_value :: "'a heap \<Rightarrow> 'a arg \<Rightarrow> 'a option" where
  "arg_value h a = (case a of Val v \<Rightarrow> Some v | Ref p \<Rightarrow> peek h p)"

section \<open>Construction, destruction and the standard algorithms\<close>

text \<open>\<^verbatim>\<open>new (p) T(std::forward<Args>(args)...)\<close>\<close>

definition construct :: "'a elem \<Rightarrow> ptr \<Rightarrow> 'a arg \<Rightarrow> 'a heap \<Rightarrow> (unit, 'a heap) outcome" where
  "construct E p a h =
     (case arg_value h a of
        None \<Rightarrow> Undefined
      | Some v \<Rightarrow>
          if throws E v then Throws ElemThrew h
          else (case poke p (Some v) h of
                  None \<Rightarrow> Undefined
                | Some h' \<Rightarrow> Returns () h'))"

text \<open>
  \<^verbatim>\<open>new (p) T(std::move(*q))\<close>: the constructor throws, or the new object takes the value
  and the source keeps \<open>moved\<close>.
\<close>

definition move_construct :: "'a elem \<Rightarrow> ptr \<Rightarrow> ptr \<Rightarrow> 'a heap \<Rightarrow> (unit, 'a heap) outcome" where
  "move_construct E p q h =
     (case peek h q of
        None \<Rightarrow> Undefined
      | Some v \<Rightarrow>
          if move_throws E v then Throws ElemThrew h
          else (case poke p (Some v) h of
                  None \<Rightarrow> Undefined
                | Some h' \<Rightarrow>
                    (case poke q (Some (moved E v)) h' of
                       None \<Rightarrow> Undefined
                     | Some h'' \<Rightarrow> Returns () h'')))"

text \<open>\<^verbatim>\<open>*p = std::move(*q)\<close>: both are live objects.\<close>

definition move_assign :: "'a elem \<Rightarrow> ptr \<Rightarrow> ptr \<Rightarrow> 'a heap \<Rightarrow> 'a heap option" where
  "move_assign E p q h =
     (case peek h p of
        None \<Rightarrow> None
      | Some _ \<Rightarrow>
          (case peek h q of
             None \<Rightarrow> None
           | Some v \<Rightarrow>
               (case poke p (Some v) h of
                  None \<Rightarrow> None
                | Some h' \<Rightarrow> poke q (Some (moved E v)) h')))"

text \<open>\<^verbatim>\<open>*p = std::move(copy)\<close> for a local object \<^verbatim>\<open>copy\<close> of value \<open>c\<close>.\<close>

definition assign_value :: "ptr \<Rightarrow> 'a \<Rightarrow> 'a heap \<Rightarrow> 'a heap option" where
  "assign_value p c h = (case peek h p of None \<Rightarrow> None | Some _ \<Rightarrow> poke p (Some c) h)"

text \<open>\<^verbatim>\<open>*p = *q\<close>\<close>

definition copy_assign :: "ptr \<Rightarrow> ptr \<Rightarrow> 'a heap \<Rightarrow> 'a heap option" where
  "copy_assign p q h = (case peek h q of None \<Rightarrow> None | Some v \<Rightarrow> assign_value p v h)"

text \<open>\<^verbatim>\<open>std::destroy_at(p)\<close>: ends the life of the object in the slot.\<close>

definition destroy_at :: "ptr \<Rightarrow> 'a heap \<Rightarrow> 'a heap option" where
  "destroy_at p h = (case peek h p of None \<Rightarrow> None | Some _ \<Rightarrow> poke p None h)"

fun destroy_n :: "ptr \<Rightarrow> nat \<Rightarrow> 'a heap \<Rightarrow> 'a heap option" where
  "destroy_n p 0 h = Some h"
| "destroy_n p (Suc n) h =
     (case destroy_at p h of
        None \<Rightarrow> None
      | Some h' \<Rightarrow> destroy_n (ptr_add p 1) n h')"

text \<open>
  \<^verbatim>\<open>std::uninitialized_move_n\<close> and \<^verbatim>\<open>std::uninitialized_copy_n\<close>: when a move or a copy
  throws, the objects already built in the destination are destroyed and the exception
  goes on.
\<close>

fun uninitialized_move_n :: "'a elem \<Rightarrow> ptr \<Rightarrow> nat \<Rightarrow> ptr \<Rightarrow> 'a heap \<Rightarrow> (unit, 'a heap) outcome" where
  "uninitialized_move_n E src 0 dst h = Returns () h"
| "uninitialized_move_n E src (Suc n) dst h =
     (case move_construct E dst src h of
        Undefined \<Rightarrow> Undefined
      | Throws e h' \<Rightarrow> Throws e h'
      | Returns _ h' \<Rightarrow>
          (case uninitialized_move_n E (ptr_add src 1) n (ptr_add dst 1) h' of
             Undefined \<Rightarrow> Undefined
           | Throws e h'' \<Rightarrow>
               (case destroy_at dst h'' of
                  None \<Rightarrow> Undefined
                | Some h3 \<Rightarrow> Throws e h3)
           | Returns u h'' \<Rightarrow> Returns u h''))"

fun uninitialized_copy_n :: "'a elem \<Rightarrow> ptr \<Rightarrow> nat \<Rightarrow> ptr \<Rightarrow> 'a heap \<Rightarrow> (unit, 'a heap) outcome" where
  "uninitialized_copy_n E src 0 dst h = Returns () h"
| "uninitialized_copy_n E src (Suc n) dst h =
     (case construct E dst (Ref src) h of
        Undefined \<Rightarrow> Undefined
      | Throws e h' \<Rightarrow> Throws e h'
      | Returns _ h' \<Rightarrow>
          (case uninitialized_copy_n E (ptr_add src 1) n (ptr_add dst 1) h' of
             Undefined \<Rightarrow> Undefined
           | Throws e h'' \<Rightarrow>
               (case destroy_at dst h'' of
                  None \<Rightarrow> Undefined
                | Some h3 \<Rightarrow> Throws e h3)
           | Returns u h'' \<Rightarrow> Returns u h''))"

fun uninitialized_value_construct_n :: "'a elem \<Rightarrow> ptr \<Rightarrow> nat \<Rightarrow> 'a heap \<Rightarrow> (unit, 'a heap) outcome" where
  "uninitialized_value_construct_n E p 0 h = Returns () h"
| "uninitialized_value_construct_n E p (Suc n) h =
     (if init_throws E then Throws ElemThrew h
      else (case poke p (Some (init E)) h of
              None \<Rightarrow> Undefined
            | Some h' \<Rightarrow> uninitialized_value_construct_n E (ptr_add p 1) n h'))"

text \<open>
  \<^verbatim>\<open>std::move(first, last, d_first)\<close> with \<open>n = last - first\<close>: front to back,
  \<^verbatim>\<open>*d_first++ = std::move(*first++)\<close>.
\<close>

fun std_move :: "'a elem \<Rightarrow> ptr \<Rightarrow> nat \<Rightarrow> ptr \<Rightarrow> 'a heap \<Rightarrow> 'a heap option" where
  "std_move E first 0 d_first h = Some h"
| "std_move E first (Suc n) d_first h =
     (case move_assign E d_first first h of
        None \<Rightarrow> None
      | Some h' \<Rightarrow> std_move E (ptr_add first 1) n (ptr_add d_first 1) h')"

text \<open>
  \<^verbatim>\<open>std::move_backward(first, last, d_last)\<close> with \<open>n = last - first\<close>: back to front,
  \<^verbatim>\<open>*(--d_last) = std::move(*(--last))\<close>. \<open>d_last\<close> is given by the offset of its block
  and \<open>d_off\<close>, which the loop counts down.
\<close>

fun move_backward :: "'a elem \<Rightarrow> ptr \<Rightarrow> nat \<Rightarrow> ptr \<Rightarrow> 'a heap \<Rightarrow> 'a heap option" where
  "move_backward E first 0 d_last h = Some h"
| "move_backward E first (Suc n) d_last h =
     (if off d_last = 0 then None
      else (case move_assign E (Ptr (base d_last) (off d_last - 1)) (ptr_add first n) h of
              None \<Rightarrow> None
            | Some h' \<Rightarrow> move_backward E first n (Ptr (base d_last) (off d_last - 1)) h'))"


section \<open>Sequencing\<close>

text \<open>
  \<open>then_do m f\<close> runs \<open>m\<close> and, when it returns, goes on with \<open>f\<close>; an exception or
  undefined behaviour of \<open>m\<close> ends the sequence. \<open>catch_rethrow m f\<close> is
  \<^verbatim>\<open>try { m } catch (...) { f; throw; }\<close>. \<open>defined\<close> reads a step that cannot throw.
\<close>

definition then_do :: "(unit, 's) outcome \<Rightarrow> ('s \<Rightarrow> (unit, 's) outcome) \<Rightarrow> (unit, 's) outcome" where
  "then_do m f = (case m of Returns _ s \<Rightarrow> f s | Throws e s \<Rightarrow> Throws e s | Undefined \<Rightarrow> Undefined)"

definition catch_rethrow :: "(unit, 's) outcome \<Rightarrow> ('s \<Rightarrow> 's option) \<Rightarrow> (unit, 's) outcome" where
  "catch_rethrow m f =
     (case m of
        Returns u s \<Rightarrow> Returns u s
      | Throws e s \<Rightarrow> (case f s of None \<Rightarrow> Undefined | Some s' \<Rightarrow> Throws e s')
      | Undefined \<Rightarrow> Undefined)"

definition defined :: "'s option \<Rightarrow> (unit, 's) outcome" where
  "defined m = (case m of None \<Rightarrow> Undefined | Some s \<Rightarrow> Returns () s)"

section \<open>\<^verbatim>\<open>Vector\<close>\<close>

text \<open>The members \<^verbatim>\<open>data_\<close> and \<^verbatim>\<open>size_\<close> are written \<open>data_m\<close> and \<open>size_m\<close>.\<close>

record Vector =
  data_m :: RawMemory
  size_m :: nat

definition Size :: "Vector \<Rightarrow> nat" where
  "Size v = size_m v"

definition Capacity :: "Vector \<Rightarrow> nat" where
  "Capacity v = RawMemory_Capacity (data_m v)"

definition begin_it :: "Vector \<Rightarrow> ptr" where
  "begin_it v = RawMemory_plus (data_m v) 0"

definition end_it :: "Vector \<Rightarrow> ptr" where
  "end_it v = RawMemory_plus (data_m v) (size_m v)"

definition Vector_default :: Vector where
  "Vector_default = \<lparr>data_m = RawMemory_default, size_m = 0\<rparr>"

definition Swap :: "Vector \<Rightarrow> Vector \<Rightarrow> Vector \<times> Vector" where
  "Swap this other =
     (case RawMemory_Swap (data_m this) (data_m other) of
        (d, d') \<Rightarrow> (\<lparr>data_m = d, size_m = size_m other\<rparr>, \<lparr>data_m = d', size_m = size_m this\<rparr>))"

text \<open>
  \<^verbatim>\<open>Vector(Vector&& other)\<close>: the members take their default initialisers, then
  \<^verbatim>\<open>Swap(other)\<close>. The result is the new vector and \<^verbatim>\<open>other\<close> after the call.
\<close>

definition Vector_move_ctor :: "Vector \<Rightarrow> Vector \<times> Vector" where
  "Vector_move_ctor other = Swap Vector_default other"

text \<open>
  The destructor: \<^verbatim>\<open>std::destroy_n(data_ + 0, size_)\<close>, then the destructor of
  \<^verbatim>\<open>data_\<close>.
\<close>

definition Vector_dtor :: "Vector \<Rightarrow> 'a heap \<Rightarrow> 'a heap option" where
  "Vector_dtor v h =
     (case destroy_n (RawMemory_plus (data_m v) 0) (size_m v) h of
        None \<Rightarrow> None
      | Some h' \<Rightarrow> RawMemory_dtor (data_m v) h')"

text \<open>
  \<^verbatim>\<open>explicit Vector(size_t size)\<close> and \<^verbatim>\<open>Vector(const Vector& other)\<close>. When filling the
  new block throws, the member \<^verbatim>\<open>data_\<close> is destroyed and no vector comes to exist.
\<close>

definition Vector_sized :: "'a elem \<Rightarrow> nat \<Rightarrow> 'a heap \<Rightarrow> (Vector, 'a heap) outcome" where
  "Vector_sized E n h =
     (case RawMemory_new E n h of
        Inl e \<Rightarrow> Throws e h
      | Inr (d, h1) \<Rightarrow>
          (case uninitialized_value_construct_n E (GetAddress d) n h1 of
             Undefined \<Rightarrow> Undefined
           | Throws e h2 \<Rightarrow>
               (case RawMemory_dtor d h2 of None \<Rightarrow> Undefined | Some h3 \<Rightarrow> Throws e h3)
           | Returns _ h2 \<Rightarrow> Returns \<lparr>data_m = d, size_m = n\<rparr> h2))"

definition Vector_copy_ctor :: "'a elem \<Rightarrow> Vector \<Rightarrow> 'a heap \<Rightarrow> (Vector, 'a heap) outcome" where
  "Vector_copy_ctor E other h =
     (case RawMemory_new E (size_m other) h of
        Inl e \<Rightarrow> Throws e h
      | Inr (d, h1) \<Rightarrow>
          (case uninitialized_copy_n E (GetAddress (data_m other)) (Size other) (GetAddress d) h1 of
             Undefined \<Rightarrow> Undefined
           | Throws e h2 \<Rightarrow>
               (case RawMemory_dtor d h2 of None \<Rightarrow> Undefined | Some h3 \<Rightarrow> Throws e h3)
           | Returns _ h2 \<Rightarrow> Returns \<lparr>data_m = d, size_m = size_m other\<rparr> h2))"

text \<open>
  The end of a reallocation, shared by \<^verbatim>\<open>Reserve\<close>, \<^verbatim>\<open>EmplaceBack\<close> and \<^verbatim>\<open>Emplace\<close>:
  \<^verbatim>\<open>std::destroy_n(data_.GetAddress(), size_); data_.Swap(new_data);\<close> and, at the closing
  brace, the destructor of \<^verbatim>\<open>new_data\<close>, which now owns the old block. The result is the
  free store and the new \<^verbatim>\<open>data_\<close>.
\<close>

definition adopt :: "RawMemory \<Rightarrow> 'a heap \<Rightarrow> Vector \<Rightarrow> ('a heap \<times> RawMemory) option" where
  "adopt new_data h v =
     (case destroy_n (GetAddress (data_m v)) (size_m v) h of
        None \<Rightarrow> None
      | Some h1 \<Rightarrow>
          (case RawMemory_Swap (data_m v) new_data of
             (d, new_data') \<Rightarrow>
               (case RawMemory_dtor new_data' h1 of
                  None \<Rightarrow> None
                | Some h2 \<Rightarrow> Some (h2, d))))"

text \<open>
  An exception inside the scope of the local \<^verbatim>\<open>new_data\<close> runs its destructor on the way
  out; the vector is as the exception found it.
\<close>

definition unwind :: "RawMemory \<Rightarrow> exn \<Rightarrow> 'a heap \<Rightarrow> Vector \<Rightarrow> ('r, 'a heap \<times> Vector) outcome" where
  "unwind new_data e h v =
     (case RawMemory_dtor new_data h of
        None \<Rightarrow> Undefined
      | Some h' \<Rightarrow> Throws e (h', v))"

definition Reserve :: "'a elem \<Rightarrow> nat \<Rightarrow> 'a heap \<Rightarrow> Vector \<Rightarrow> (unit, 'a heap \<times> Vector) outcome" where
  "Reserve E new_capacity h v =
     (if new_capacity \<le> Capacity v then Returns () (h, v)
      else
        (case RawMemory_new E new_capacity h of
           Inl e \<Rightarrow> Throws e (h, v)
         | Inr (new_data, h1) \<Rightarrow>
             (case (if nothrow_move E
                    then uninitialized_move_n E (GetAddress (data_m v)) (Size v) (GetAddress new_data) h1
                    else uninitialized_copy_n E (GetAddress (data_m v)) (size_m v) (GetAddress new_data) h1) of
                Undefined \<Rightarrow> Undefined
              | Throws e h2 \<Rightarrow> unwind new_data e h2 v
              | Returns _ h2 \<Rightarrow>
                  (case adopt new_data h2 v of
                     None \<Rightarrow> Undefined
                   | Some (h3, d) \<Rightarrow> Returns () (h3, v\<lparr>data_m := d\<rparr>)))))"

definition EmplaceBack :: "'a elem \<Rightarrow> 'a arg \<Rightarrow> 'a heap \<Rightarrow> Vector \<Rightarrow> (ptr, 'a heap \<times> Vector) outcome" where
  "EmplaceBack E args h v =
     (if size_m v = Capacity v then
        (case RawMemory_new E (if size_m v = 0 then 1 else Capacity v * 2) h of
           Inl e \<Rightarrow> Throws e (h, v)
         | Inr (new_data, h1) \<Rightarrow>
             (case (if nothrow_move E
                    then then_do (construct E (RawMemory_plus new_data (size_m v)) args h1)
                           (uninitialized_move_n E (GetAddress (data_m v)) (size_m v) (GetAddress new_data))
                    else then_do (construct E (RawMemory_plus new_data (size_m v)) args h1)
                           (uninitialized_copy_n E (GetAddress (data_m v)) (size_m v) (GetAddress new_data))) of
                Undefined \<Rightarrow> Undefined
              | Throws e h2 \<Rightarrow> unwind new_data e h2 v
              | Returns _ h2 \<Rightarrow>
                  (case adopt new_data h2 v of
                     None \<Rightarrow> Undefined
                   | Some (h3, d) \<Rightarrow>
                       Returns (RawMemory_plus d (size_m v + 1 - 1))
                         (h3, \<lparr>data_m = d, size_m = size_m v + 1\<rparr>))))
      else
        (case construct E (RawMemory_plus (data_m v) (size_m v)) args h of
           Undefined \<Rightarrow> Undefined
         | Throws e h1 \<Rightarrow> Throws e (h1, v)
         | Returns _ h1 \<Rightarrow>
             Returns (RawMemory_plus (data_m v) (size_m v + 1 - 1))
               (h1, v\<lparr>size_m := size_m v + 1\<rparr>)))"

definition PushBack :: "'a elem \<Rightarrow> 'a arg \<Rightarrow> 'a heap \<Rightarrow> Vector \<Rightarrow> (unit, 'a heap \<times> Vector) outcome" where
  "PushBack E value h v =
     (case EmplaceBack E value h v of
        Returns _ s \<Rightarrow> Returns () s
      | Throws e s \<Rightarrow> Throws e s
      | Undefined \<Rightarrow> Undefined)"

text \<open>
  \<^verbatim>\<open>PopBack\<close>: on an empty vector \<^verbatim>\<open>data_ + size_ - 1\<close> points before the block and
  \<^verbatim>\<open>--size_\<close> wraps.
\<close>

definition PopBack :: "'a heap \<Rightarrow> Vector \<Rightarrow> (unit, 'a heap \<times> Vector) outcome" where
  "PopBack h v =
     (if size_m v = 0 then Undefined
      else (case destroy_n (RawMemory_plus (data_m v) (size_m v - 1)) 1 h of
              None \<Rightarrow> Undefined
            | Some h' \<Rightarrow> Returns () (h', v\<lparr>size_m := size_m v - 1\<rparr>)))"

definition Resize :: "'a elem \<Rightarrow> nat \<Rightarrow> 'a heap \<Rightarrow> Vector \<Rightarrow> (unit, 'a heap \<times> Vector) outcome" where
  "Resize E new_size h v =
     (if new_size < size_m v then
        (case destroy_n (RawMemory_plus (data_m v) new_size) (size_m v - new_size) h of
           None \<Rightarrow> Undefined
         | Some h' \<Rightarrow> Returns () (h', v\<lparr>size_m := new_size\<rparr>))
      else if new_size > size_m v then
        (case Reserve E new_size h v of
           Undefined \<Rightarrow> Undefined
         | Throws e s \<Rightarrow> Throws e s
         | Returns _ (h1, v1) \<Rightarrow>
             (case uninitialized_value_construct_n E (RawMemory_plus (data_m v1) (size_m v1))
                     (new_size - size_m v1) h1 of
                Undefined \<Rightarrow> Undefined
              | Throws e h2 \<Rightarrow> Throws e (h2, v1)
              | Returns _ h2 \<Rightarrow> Returns () (h2, v1\<lparr>size_m := new_size\<rparr>)))
      else Returns () (h, v\<lparr>size_m := new_size\<rparr>))"


text \<open>
  \<^verbatim>\<open>Emplace\<close>. The \<^verbatim>\<open>assert\<close> asks for a position of this vector in \<open>[begin, end]\<close>.
  Without growth the source first builds \<^verbatim>\<open>T(std::forward<T>(data_[size_ - 1]))\<close> in the
  slot at \<^verbatim>\<open>end()\<close> (a move from the last element; an exception of it leaves the call),
  then the local \<^verbatim>\<open>T copy(args...)\<close>, then shifts with \<^verbatim>\<open>std::move_backward\<close> and assigns
  \<^verbatim>\<open>copy\<close> to the slot at \<open>pos\<close>.
\<close>

definition Emplace :: "'a elem \<Rightarrow> ptr \<Rightarrow> 'a arg \<Rightarrow> 'a heap \<Rightarrow> Vector \<Rightarrow> (ptr, 'a heap \<times> Vector) outcome" where
  "Emplace E pos args h v =
     (if \<not> (base pos = base (begin_it v) \<and> off (begin_it v) \<le> off pos \<and> off pos \<le> off (end_it v))
      then Undefined
      else if pos = end_it v then
        (case EmplaceBack E args h v of
           Undefined \<Rightarrow> Undefined
         | Throws e s \<Rightarrow> Throws e s
         | Returns _ (h', v') \<Rightarrow> Returns (RawMemory_plus (data_m v') (size_m v' - 1)) (h', v'))
      else
        (let num_pos = off pos - off (begin_it v) in
         if size_m v = Capacity v then
           (case RawMemory_new E (if size_m v = 0 then 1 else Capacity v * 2) h of
              Inl e \<Rightarrow> Throws e (h, v)
            | Inr (new_data, h1) \<Rightarrow>
                (case (if nothrow_move E then
                         then_do (construct E (RawMemory_plus new_data num_pos) args h1) (\<lambda>h2.
                         then_do (uninitialized_move_n E (RawMemory_plus (data_m v) 0) num_pos
                                    (RawMemory_plus new_data 0) h2)
                           (uninitialized_move_n E (RawMemory_plus (data_m v) num_pos)
                              (size_m v - num_pos) (ptr_add (RawMemory_plus new_data num_pos) 1)))
                       else
                         then_do (construct E (RawMemory_plus new_data num_pos) args h1) (\<lambda>h2.
                         then_do (catch_rethrow
                                    (uninitialized_copy_n E (GetAddress (data_m v)) num_pos
                                       (GetAddress new_data) h2)
                                    (destroy_n (RawMemory_plus new_data num_pos) 1)) (\<lambda>h3.
                         catch_rethrow
                           (uninitialized_copy_n E (ptr_add (GetAddress (data_m v)) num_pos)
                              (size_m v - num_pos)
                              (ptr_add (ptr_add (GetAddress new_data) num_pos) 1) h3)
                           (destroy_n (RawMemory_plus new_data 0) num_pos)))) of
                   Undefined \<Rightarrow> Undefined
                 | Throws e h2 \<Rightarrow> unwind new_data e h2 v
                 | Returns _ h2 \<Rightarrow>
                     (case adopt new_data h2 v of
                        None \<Rightarrow> Undefined
                      | Some (h3, d) \<Rightarrow>
                          Returns (RawMemory_plus d num_pos)
                            (h3, \<lparr>data_m = d, size_m = size_m v + 1\<rparr>))))
         else if size_m v \<noteq> 0 then
           (case move_construct E (end_it v) (RawMemory_plus (data_m v) (size_m v - 1)) h of
              Undefined \<Rightarrow> Undefined
            | Throws e h1 \<Rightarrow> Throws e (h1, v)
            | Returns _ h1 \<Rightarrow>
                (case arg_value h1 args of
                   None \<Rightarrow> Undefined
                 | Some c \<Rightarrow>
                     if throws E c then Throws ElemThrew (h1, v)
                     else
                       (case move_backward E (ptr_add (begin_it v) num_pos)
                               (size_m v - 1 - num_pos) (end_it v) h1 of
                          None \<Rightarrow> Undefined
                        | Some h2 \<Rightarrow>
                            (case assign_value (RawMemory_plus (data_m v) num_pos) c h2 of
                               None \<Rightarrow> Undefined
                             | Some h3 \<Rightarrow>
                                 Returns (RawMemory_plus (data_m v) num_pos)
                                   (h3, v\<lparr>size_m := size_m v + 1\<rparr>)))))
         else
           (case construct E (RawMemory_plus (data_m v) num_pos) args h of
              Undefined \<Rightarrow> Undefined
            | Throws e h1 \<Rightarrow> Throws e (h1, v)
            | Returns _ h1 \<Rightarrow>
                Returns (RawMemory_plus (data_m v) num_pos) (h1, v\<lparr>size_m := size_m v + 1\<rparr>))))"

definition Insert :: "'a elem \<Rightarrow> ptr \<Rightarrow> 'a arg \<Rightarrow> 'a heap \<Rightarrow> Vector \<Rightarrow> (ptr, 'a heap \<times> Vector) outcome" where
  "Insert E pos value h v = Emplace E pos value h v"

text \<open>
  \<^verbatim>\<open>Erase\<close>. The \<^verbatim>\<open>assert\<close> lets \<open>pos = end()\<close> through; there
  \<^verbatim>\<open>begin() + num_pos + 1\<close> lies behind \<^verbatim>\<open>end()\<close> and \<^verbatim>\<open>std::move\<close> has no range to
  work on.
\<close>

definition Erase :: "'a elem \<Rightarrow> ptr \<Rightarrow> 'a heap \<Rightarrow> Vector \<Rightarrow> (ptr, 'a heap \<times> Vector) outcome" where
  "Erase E pos h v =
     (if \<not> (base pos = base (begin_it v) \<and> off (begin_it v) \<le> off pos \<and> off pos \<le> off (end_it v))
      then Undefined
      else
        (let num_pos = off pos - off (begin_it v) in
         if size_m v < num_pos + 1 then Undefined
         else
           (case std_move E (ptr_add (ptr_add (begin_it v) num_pos) 1) (size_m v - (num_pos + 1))
                   (ptr_add (begin_it v) num_pos) h of
              None \<Rightarrow> Undefined
            | Some h1 \<Rightarrow>
                (case destroy_at (Ptr (base (end_it v)) (off (end_it v) - 1)) h1 of
                   None \<Rightarrow> Undefined
                 | Some h2 \<Rightarrow>
                     Returns (RawMemory_plus (data_m v) num_pos) (h2, v\<lparr>size_m := size_m v - 1\<rparr>)))))"

text \<open>\<^verbatim>\<open>for (size_t i = 0; i < n; ++i) data_[i] = rhs.data_[i];\<close>\<close>

fun copy_assign_n :: "ptr \<Rightarrow> ptr \<Rightarrow> nat \<Rightarrow> 'a heap \<Rightarrow> 'a heap option" where
  "copy_assign_n dst src 0 h = Some h"
| "copy_assign_n dst src (Suc n) h =
     (case copy_assign dst src h of
        None \<Rightarrow> None
      | Some h' \<Rightarrow> copy_assign_n (ptr_add dst 1) (ptr_add src 1) n h')"

text \<open>
  The assignment operators. The right-hand side is another vector (\<open>Some rhs\<close>) or the
  assigned vector itself (\<open>None\<close>, where \<^verbatim>\<open>this != &rhs\<close> is false). Copy assignment
  leaves \<^verbatim>\<open>rhs\<close> as it is; move assignment returns \<^verbatim>\<open>*this\<close> and \<^verbatim>\<open>rhs\<close> after the call.
\<close>

definition copy_assignment ::
    "'a elem \<Rightarrow> 'a heap \<Rightarrow> Vector \<Rightarrow> Vector option \<Rightarrow> (unit, 'a heap \<times> Vector) outcome" where
  "copy_assignment E h this rhs' =
     (case rhs' of
        None \<Rightarrow> Returns () (h, this\<lparr>size_m := Size this\<rparr>)
      | Some rhs \<Rightarrow>
          if Size rhs > RawMemory_Capacity (data_m this) then
            (case Vector_copy_ctor E rhs h of
               Undefined \<Rightarrow> Undefined
             | Throws e h1 \<Rightarrow> Throws e (h1, this)
             | Returns copy h1 \<Rightarrow>
                 (case Swap this copy of
                    (this', copy') \<Rightarrow>
                      (case Vector_dtor copy' h1 of
                         None \<Rightarrow> Undefined
                       | Some h2 \<Rightarrow> Returns () (h2, this'\<lparr>size_m := Size rhs\<rparr>))))
          else if Size this > Size rhs then
            (case copy_assign_n (GetAddress (data_m this)) (GetAddress (data_m rhs)) (size_m rhs) h of
               None \<Rightarrow> Undefined
             | Some h1 \<Rightarrow>
                 (case destroy_n (RawMemory_plus (data_m this) (Size rhs)) (Size this - Size rhs) h1 of
                    None \<Rightarrow> Undefined
                  | Some h2 \<Rightarrow> Returns () (h2, this\<lparr>size_m := Size rhs\<rparr>)))
          else
            (case copy_assign_n (GetAddress (data_m this)) (GetAddress (data_m rhs)) (size_m this) h of
               None \<Rightarrow> Undefined
             | Some h1 \<Rightarrow>
                 (case uninitialized_copy_n E (RawMemory_plus (data_m rhs) (Size this))
                         (Size rhs - Size this)
                         (ptr_add (GetAddress (data_m this)) (size_m this)) h1 of
                    Undefined \<Rightarrow> Undefined
                  | Throws e h2 \<Rightarrow> Throws e (h2, this)
                  | Returns _ h2 \<Rightarrow> Returns () (h2, this\<lparr>size_m := Size rhs\<rparr>))))"

definition move_assignment :: "Vector \<Rightarrow> Vector option \<Rightarrow> Vector \<times> Vector option" where
  "move_assignment this rhs' =
     (case rhs' of
        None \<Rightarrow> (this, None)
      | Some rhs \<Rightarrow>
          if Size rhs > RawMemory_Capacity (data_m this) then
            (case Swap this rhs of (this', rhs1) \<Rightarrow> (this', Some rhs1))
          else
            (case RawMemory_Swap (data_m this) (data_m rhs) of
               (d, d') \<Rightarrow>
                 (\<lparr>data_m = d, size_m = Size (rhs\<lparr>data_m := d'\<rparr>)\<rparr>, Some (rhs\<lparr>data_m := d'\<rparr>))))"

section \<open>What a vector holds\<close>

text \<open>
  \<open>elems h v\<close> is the state of the slots \<open>[0, size)\<close> of the vector's block: \<open>Some x\<close> for a
  live element of value \<open>x\<close>, \<open>None\<close> for raw storage. \<open>valid h v\<close> is the invariant of the
  data model: \<open>size \<le> capacity\<close>, a vector without capacity has no block, the block has
  \<open>capacity\<close> slots, and the slots \<open>[0, size)\<close> hold live elements.
\<close>

definition elems :: "'a heap \<Rightarrow> Vector \<Rightarrow> 'a option list" where
  "elems h v =
     (case block_at h (buffer_m (data_m v)) of
        None \<Rightarrow> []
      | Some blk \<Rightarrow> take (size_m v) blk)"

definition all_live :: "'a option list \<Rightarrow> bool" where
  "all_live ss = list_all (\<lambda>s. s \<noteq> None) ss"

definition valid :: "'a heap \<Rightarrow> Vector \<Rightarrow> bool" where
  "valid h v =
     (size_m v \<le> Capacity v \<and>
      (case buffer_m (data_m v) of
         None \<Rightarrow> Capacity v = 0
       | Some a \<Rightarrow>
           (case block_at h (Some a) of
              None \<Rightarrow> False
            | Some blk \<Rightarrow> length blk = Capacity v \<and> all_live (take (size_m v) blk))))"

section \<open>Auxiliary notions for the proofs\<close>

text \<open>
  \<open>set_block a blk h\<close> is the free store \<open>h\<close> with block \<open>a\<close> holding \<open>blk\<close>, and
  \<open>upd_range i n f xs\<close> is \<open>xs\<close> with the slots \<open>[i, i + n)\<close> set to \<open>f k\<close>. The loops of
  the standard algorithms are described with them.
\<close>

definition set_block :: "addr \<Rightarrow> 'a block \<Rightarrow> 'a heap \<Rightarrow> 'a heap" where
  "set_block a blk h = h\<lparr>blocks := (blocks h)[a := Some blk]\<rparr>"

definition upd_range :: "nat \<Rightarrow> nat \<Rightarrow> (nat \<Rightarrow> 'b) \<Rightarrow> 'b list \<Rightarrow> 'b list" where
  "upd_range i n f xs = map (\<lambda>k. if i \<le> k \<and> k < i + n then f k else xs ! k) [0..<length xs]"

text \<open>
  \<open>alloc_heap n h\<close> is \<open>h\<close> after a block of \<open>n\<close> raw slots was allocated, and
  \<open>release a blk h\<close> is \<open>h\<close> after the block \<open>blk\<close> at address \<open>a\<close> was released.
\<close>

definition alloc_heap :: "nat \<Rightarrow> 'a heap \<Rightarrow> 'a heap" where
  "alloc_heap n h =
     h\<lparr>blocks := blocks h @ [Some (replicate n None)], free_slots := free_slots h - n\<rparr>"

definition release :: "addr \<Rightarrow> 'a block \<Rightarrow> 'a heap \<Rightarrow> 'a heap" where
  "release a blk h =
     h\<lparr>blocks := (blocks h)[a := None], free_slots := free_slots h + length blk\<rparr>"

text \<open>
  \<open>granted E n\<close> is the number of slots in the block that \<^verbatim>\<open>Allocate(n)\<close> asks
  \<^verbatim>\<open>operator new\<close> for, and \<open>block_len h q\<close> the number of slots of the block at \<open>q\<close>.
\<close>

definition granted :: "'a elem \<Rightarrow> nat \<Rightarrow> nat" where
  "granted E n = size_t (n * sizeof E) div sizeof E"

definition block_len :: "'a heap \<Rightarrow> addr option \<Rightarrow> nat option" where
  "block_len h q = map_option length (block_at h q)"

text \<open>
  \<open>some_throws E ss\<close>: copying one of the live elements among the slots \<open>ss\<close> throws;
  \<open>some_move_throws E ss\<close>: moving one of them throws; \<open>transfer_throws E ss\<close>: one of them
  throws when it is taken to a new block, by a move or by a copy as the
  \<^verbatim>\<open>if constexpr\<close> decides.
\<close>

definition some_throws :: "'a elem \<Rightarrow> 'a option list \<Rightarrow> bool" where
  "some_throws E ss = list_ex (\<lambda>s. case s of None \<Rightarrow> False | Some x \<Rightarrow> throws E x) ss"

definition some_move_throws :: "'a elem \<Rightarrow> 'a option list \<Rightarrow> bool" where
  "some_move_throws E ss = list_ex (\<lambda>s. case s of None \<Rightarrow> False | Some x \<Rightarrow> move_throws E x) ss"

definition transfer_throws :: "'a elem \<Rightarrow> 'a option list \<Rightarrow> bool" where
  "transfer_throws E ss = (if nothrow_move E then some_move_throws E ss else some_throws E ss)"

text \<open>
  \<open>keeps_capacity v out\<close>: when the call that started on the vector \<open>v\<close> leaves a vector
  behind, by returning or by an exception, its capacity is not below that of \<open>v\<close>.
\<close>

definition keeps_capacity :: "Vector \<Rightarrow> ('r, 'a heap \<times> Vector) outcome \<Rightarrow> bool" where
  "keeps_capacity v out =
     (case out of
        Returns _ (_, v') \<Rightarrow> Capacity v \<le> Capacity v'
      | Throws _ (_, v') \<Rightarrow> Capacity v \<le> Capacity v'
      | Undefined \<Rightarrow> True)"

section \<open>Element types and states used as examples\<close>

text \<open>
  \<^verbatim>\<open>int\<close>, of 4 bytes; \<^verbatim>\<open>std::vector<int>\<close>, of 24 bytes, whose move constructor and move
  assignment leave the source empty; and a type of 4 bytes with a copy constructor and no
  move constructor, whose constructors throw for the value 13.
\<close>

definition elem_int :: "int elem" where
  "elem_int = \<lparr>sizeof = 4, nothrow_move = True, throws = (\<lambda>_. False),
                move_throws = (\<lambda>_. False), moved = (\<lambda>x. x), init = 0, init_throws = False\<rparr>"

definition elem_int_vector :: "int list elem" where
  "elem_int_vector = \<lparr>sizeof = 24, nothrow_move = True, throws = (\<lambda>_. False),
                       move_throws = (\<lambda>_. False), moved = (\<lambda>_. []), init = [],
                       init_throws = False\<rparr>"

definition elem_throwing :: "int elem" where
  "elem_throwing = \<lparr>sizeof = 4, nothrow_move = False, throws = (\<lambda>x. x = 13),
                     move_throws = (\<lambda>x. x = 13), moved = (\<lambda>x. x), init = 0,
                     init_throws = False\<rparr>"

text \<open>A free store without blocks that can still give 16 slots.\<close>

definition empty_heap :: "int heap" where
  "empty_heap = \<lparr>blocks = [], free_slots = 16\<rparr>"

text \<open>
  A free store with two blocks: four raw slots at address 0, and the elements 1 and 2 at
  address 1. \<open>vec_a\<close> is an empty vector of capacity 4 on the first, \<open>vec_b\<close> a full vector
  of size 2 on the second.
\<close>

definition two_blocks :: "int heap" where
  "two_blocks = \<lparr>blocks = [Some [None, None, None, None], Some [Some 1, Some 2]], free_slots = 10\<rparr>"

definition vec_a :: Vector where
  "vec_a = \<lparr>data_m = \<lparr>buffer_m = Some 0, capacity_m = 4\<rparr>, size_m = 0\<rparr>"

definition vec_b :: Vector where
  "vec_b = \<lparr>data_m = \<lparr>buffer_m = Some 1, capacity_m = 2\<rparr>, size_m = 2\<rparr>"

text \<open>
  A \<^verbatim>\<open>Vector<std::vector<int>>\<close> of capacity 4 holding \<open>[1]\<close> and \<open>[2]\<close>.
\<close>

definition nested_heap :: "int list heap" where
  "nested_heap = \<lparr>blocks = [Some [Some [1], Some [2], None, None]], free_slots = 0\<rparr>"

definition nested_vec :: Vector where
  "nested_vec = \<lparr>data_m = \<lparr>buffer_m = Some 0, capacity_m = 4\<rparr>, size_m = 2\<rparr>"

text \<open>
  Two requests whose byte count for \<^verbatim>\<open>int\<close> does not fit \<^verbatim>\<open>size_t\<close>: \<open>2^62 + 1\<close> objects
  take \<open>2^64 + 4\<close> bytes, which wraps to 4 bytes, the room of one object; \<open>2^62 + 2\<close>
  objects wrap to 8 bytes, the room of two.
\<close>

definition wrapping_request_1 :: nat where
  "wrapping_request_1 = 2 ^ 62 + 1"


section \<open>Slots and blocks\<close>

lemma length_upd_range [simp]: "length (upd_range i n f xs) = length xs"
  by (simp add: upd_range_def)

lemma nth_upd_range [simp]:
  "k < length xs \<Longrightarrow> upd_range i n f xs ! k = (if i \<le> k \<and> k < i + n then f k else xs ! k)"
  by (simp add: upd_range_def)

lemma upd_range_0 [simp]: "upd_range i 0 f xs = xs"
  by (auto simp: list_eq_iff_nth_eq)

lemma upd_range_cong:
  "(\<And>k. i \<le> k \<Longrightarrow> k < i + n \<Longrightarrow> k < length xs \<Longrightarrow> f k = g k) \<Longrightarrow>
   upd_range i n f xs = upd_range i n g xs"
  by (auto simp: list_eq_iff_nth_eq)



lemma upd_range_Suc:
  assumes "i < length xs"
  shows "upd_range (Suc i) n f (xs[i := f i]) = upd_range i (Suc n) f xs"
proof (rule nth_equalityI)
  show "length (upd_range (Suc i) n f (xs[i := f i])) = length (upd_range i (Suc n) f xs)"
    by simp
next
  fix k assume "k < length (upd_range (Suc i) n f (xs[i := f i]))"
  then have k: "k < length xs" by simp
  show "upd_range (Suc i) n f (xs[i := f i]) ! k = upd_range i (Suc n) f xs ! k"
  proof (cases "k = i")
    case True
    then show ?thesis using assms by simp
  next
    case False
    then show ?thesis using k by (auto simp: nth_list_update)
  qed
qed


lemma block_at_None [simp]: "block_at h None = None"
  by (simp add: block_at_def)

lemma block_at_Some_lt: "block_at h (Some a) = Some blk \<Longrightarrow> a < length (blocks h)"
  by (simp add: block_at_def split: if_splits)

lemma block_at_set_block [simp]:
  "block_at (set_block a blk h) q =
     (if q = Some a \<and> a < length (blocks h) then Some blk else block_at h q)"
  by (cases q) (auto simp: block_at_def set_block_def)

lemma free_slots_set_block [simp]: "free_slots (set_block a blk h) = free_slots h"
  by (simp add: set_block_def)

lemma length_blocks_set_block [simp]: "length (blocks (set_block a blk h)) = length (blocks h)"
  by (simp add: set_block_def)

lemma set_block_same: "block_at h (Some a) = Some blk \<Longrightarrow> set_block a blk h = h"
proof -
  assume "block_at h (Some a) = Some blk"
  then have "(blocks h)[a := Some blk] = blocks h"
    by (auto simp: block_at_def list_eq_iff_nth_eq nth_list_update split: if_splits)
  then show ?thesis by (simp add: set_block_def)
qed

lemma set_block_twice [simp]: "set_block a blk (set_block a blk' h) = set_block a blk h"
  by (simp add: set_block_def)

lemma set_block_absorb:
  assumes "a \<noteq> b"
  shows "set_block a x (set_block b y (set_block a x' (set_block b y' h))) = set_block a x (set_block b y h)"
proof -
  have "(blocks h)[b := Some y', a := Some x', b := Some y, a := Some x]
      = (blocks h)[b := Some y, a := Some x]"
    using assms by (metis list_update_swap list_update_overwrite)
  then show ?thesis by (simp add: set_block_def)
qed

lemma set_block_swap: "a \<noteq> b \<Longrightarrow> set_block a x (set_block b y h) = set_block b y (set_block a x h)"
  by (simp add: set_block_def list_update_swap)

lemma peek_eq:
  "block_at h (Some a) = Some blk \<Longrightarrow> peek h (Ptr (Some a) i) = (if i < length blk then blk ! i else None)"
  by (simp add: peek_def)

lemma poke_eq:
  "block_at h (Some a) = Some blk \<Longrightarrow> i < length blk \<Longrightarrow>
   poke (Ptr (Some a) i) s h = Some (set_block a (blk[i := s]) h)"
  by (simp add: poke_def set_block_def)

lemma ptr_add_Ptr [simp]: "ptr_add (Ptr b i) k = Ptr b (i + k)"
  by (simp add: ptr_add_def)

lemma live_at:
  "\<forall>k. i \<le> k \<and> k < i + n \<longrightarrow> xs ! k \<noteq> None \<Longrightarrow> i \<le> p \<Longrightarrow> p < i + n \<Longrightarrow> \<exists>v. xs ! p = Some v"
  by auto

lemma move_construct_eq:
  assumes "block_at h (Some a) = Some xs" "block_at h (Some b) = Some ys" "a \<noteq> b"
    "i < length xs" "j < length ys" "xs ! i = Some v"
  shows "move_construct E (Ptr (Some b) j) (Ptr (Some a) i) h =
           (if move_throws E v then Throws ElemThrew h
            else Returns () (set_block a (xs[i := Some (moved E v)]) (set_block b (ys[j := Some v]) h)))"
proof -
  have "a < length (blocks h)" "b < length (blocks h)"
    using assms block_at_Some_lt by blast+
  then show ?thesis
    using assms by (simp add: move_construct_def peek_eq poke_eq)
qed

lemma uninitialized_move_n_eq:
  assumes "block_at h (Some a) = Some xs" "block_at h (Some b) = Some ys" "a \<noteq> b"
    "i + n \<le> length xs" "j + n \<le> length ys"
    "\<forall>k. i \<le> k \<and> k < i + n \<longrightarrow> xs ! k \<noteq> None"
    "\<forall>k x. i \<le> k \<and> k < i + n \<and> xs ! k = Some x \<longrightarrow> \<not> move_throws E x"
  shows "uninitialized_move_n E (Ptr (Some a) i) n (Ptr (Some b) j) h =
           Returns () (set_block a (upd_range i n (\<lambda>k. map_option (moved E) (xs ! k)) xs)
                        (set_block b (upd_range j n (\<lambda>k. xs ! (k + i - j)) ys) h))"
  using assms
proof (induction n arbitrary: i j xs ys h)
  case 0
  then show ?case by (simp add: set_block_same)
next
  case (Suc n)
  from live_at[OF Suc.prems(6), of i] obtain v where v: "xs ! i = Some v" by auto
  let ?xs1 = "xs[i := Some (moved E v)]" and ?ys1 = "ys[j := Some v]"
  let ?h1 = "set_block a ?xs1 (set_block b ?ys1 h)"
  have la: "a < length (blocks h)" and lb: "b < length (blocks h)"
    using Suc.prems block_at_Some_lt by blast+
  have nt: "\<not> move_throws E v" using Suc.prems(7)[rule_format, of i v] v by simp
  have step: "move_construct E (Ptr (Some b) j) (Ptr (Some a) i) h = Returns () ?h1"
    using move_construct_eq[OF Suc.prems(1,2,3) _ _ v, of j E] Suc.prems(4,5) nt by simp
  have p7: "\<forall>k x. Suc i \<le> k \<and> k < Suc i + n \<and> ?xs1 ! k = Some x \<longrightarrow> \<not> move_throws E x"
  proof (intro allI impI)
    fix k x assume k: "Suc i \<le> k \<and> k < Suc i + n \<and> ?xs1 ! k = Some x"
    then have "k \<noteq> i" by simp
    with k have "xs ! k = Some x" by simp
    with k Suc.prems(7)[rule_format, of k x] show "\<not> move_throws E x" by simp
  qed
  have IH: "uninitialized_move_n E (Ptr (Some a) (Suc i)) n (Ptr (Some b) (Suc j)) ?h1 =
      Returns () (set_block a (upd_range (Suc i) n (\<lambda>k. map_option (moved E) (?xs1 ! k)) ?xs1)
                        (set_block b (upd_range (Suc j) n (\<lambda>k. ?xs1 ! (k + Suc i - Suc j)) ?ys1) ?h1))"
    by (intro Suc.IH p7) (use Suc.prems(1-6) la lb in auto)
  have "upd_range (Suc i) n (\<lambda>k. map_option (moved E) (?xs1 ! k)) ?xs1
          = upd_range (Suc i) n (\<lambda>k. map_option (moved E) (xs ! k)) ?xs1"
    by (rule upd_range_cong) simp
  also have "\<dots> = upd_range i (Suc n) (\<lambda>k. map_option (moved E) (xs ! k)) xs"
    using upd_range_Suc[of i xs n "\<lambda>k. map_option (moved E) (xs ! k)"] Suc.prems v by simp
  finally have e1: "upd_range (Suc i) n (\<lambda>k. map_option (moved E) (?xs1 ! k)) ?xs1
          = upd_range i (Suc n) (\<lambda>k. map_option (moved E) (xs ! k)) xs" .
  have "upd_range (Suc j) n (\<lambda>k. ?xs1 ! (k + Suc i - Suc j)) ?ys1
          = upd_range (Suc j) n (\<lambda>k. xs ! (k + i - j)) ?ys1"
    by (rule upd_range_cong) simp
  also have "\<dots> = upd_range j (Suc n) (\<lambda>k. xs ! (k + i - j)) ys"
    using upd_range_Suc[of j ys n "\<lambda>k. xs ! (k + i - j)"] Suc.prems v by simp
  finally have e2: "upd_range (Suc j) n (\<lambda>k. ?xs1 ! (k + Suc i - Suc j)) ?ys1
          = upd_range j (Suc n) (\<lambda>k. xs ! (k + i - j)) ys" .
  have "uninitialized_move_n E (Ptr (Some a) i) (Suc n) (Ptr (Some b) j) h
      = uninitialized_move_n E (Ptr (Some a) (Suc i)) n (Ptr (Some b) (Suc j)) ?h1"
    by (simp add: step IH)
  also note IH
  finally show ?case
    unfolding e1 e2 using \<open>a \<noteq> b\<close> by (simp add: set_block_absorb)
qed

lemma uninitialized_move_n_throws:
  assumes "block_at h (Some a) = Some xs" "block_at h (Some b) = Some ys" "a \<noteq> b"
    "i + n \<le> length xs" "j + n \<le> length ys"
    "\<forall>k. i \<le> k \<and> k < i + n \<longrightarrow> xs ! k \<noteq> None"
    "\<exists>k x. i \<le> k \<and> k < i + n \<and> xs ! k = Some x \<and> move_throws E x"
  shows "uninitialized_move_n E (Ptr (Some a) i) n (Ptr (Some b) j) h \<noteq> Returns u h'"
  using assms
proof (induction n arbitrary: i j xs ys h)
  case 0
  from 0(7) show ?case by auto
next
  case (Suc n)
  from live_at[OF Suc.prems(6), of i] obtain v where v: "xs ! i = Some v" by auto
  let ?xs1 = "xs[i := Some (moved E v)]" and ?ys1 = "ys[j := Some v]"
  let ?h1 = "set_block a ?xs1 (set_block b ?ys1 h)"
  have la: "a < length (blocks h)" and lb: "b < length (blocks h)"
    using Suc.prems block_at_Some_lt by blast+
  note mc = move_construct_eq[OF Suc.prems(1,2,3) _ _ v, of j E]
  show ?case
  proof (cases "move_throws E v")
    case True
    with mc Suc.prems(4,5) show ?thesis by simp
  next
    case False
    with mc Suc.prems(4,5) have step:
      "move_construct E (Ptr (Some b) j) (Ptr (Some a) i) h = Returns () ?h1" by simp
    from Suc.prems(7) obtain k x where k: "i \<le> k" "k < i + Suc n" "xs ! k = Some x"
      "move_throws E x" by blast
    with False v have ki: "k \<noteq> i" by auto
    have ex: "\<exists>k x. Suc i \<le> k \<and> k < Suc i + n \<and> ?xs1 ! k = Some x \<and> move_throws E x"
      using k ki by (intro exI[of _ k] exI[of _ x]) simp
    have b1: "block_at ?h1 (Some a) = Some ?xs1" using la by simp
    have b2: "block_at ?h1 (Some b) = Some ?ys1" using lb Suc.prems(3) by simp
    have l1: "Suc i + n \<le> length ?xs1" and l2: "Suc j + n \<le> length ?ys1"
      using Suc.prems(4,5) by simp_all
    have live: "\<forall>k. Suc i \<le> k \<and> k < Suc i + n \<longrightarrow> ?xs1 ! k \<noteq> None"
      using Suc.prems(6) by simp
    have "uninitialized_move_n E (Ptr (Some a) (Suc i)) n (Ptr (Some b) (Suc j)) ?h1 \<noteq> Returns u h'"
      by (rule Suc.IH[OF b1 b2 Suc.prems(3) l1 l2 live ex])
    then show ?thesis by (auto simp: step split: outcome.splits option.splits)
  qed
qed

lemma uninitialized_copy_n_eq:
  assumes "block_at h (Some a) = Some xs" "block_at h (Some b) = Some ys" "a \<noteq> b"
    "i + n \<le> length xs" "j + n \<le> length ys"
    "\<forall>k. i \<le> k \<and> k < i + n \<longrightarrow> xs ! k \<noteq> None"
    "\<forall>k. j \<le> k \<and> k < j + n \<longrightarrow> ys ! k = None"
  shows "uninitialized_copy_n E (Ptr (Some a) i) n (Ptr (Some b) j) h =
           (if \<exists>k x. i \<le> k \<and> k < i + n \<and> xs ! k = Some x \<and> throws E x
            then Throws ElemThrew h
            else Returns () (set_block b (upd_range j n (\<lambda>k. xs ! (k + i - j)) ys) h))"
  using assms
proof (induction n arbitrary: i j ys h)
  case 0
  then show ?case by (simp add: set_block_same)
next
  case (Suc n)
  from live_at[OF Suc.prems(6), of i] obtain v where v: "xs ! i = Some v" by auto
  let ?ys1 = "ys[j := Some v]"
  let ?h1 = "set_block b ?ys1 h"
  have la: "a < length (blocks h)" and lb: "b < length (blocks h)"
    using Suc.prems block_at_Some_lt by blast+
  show ?case
  proof (cases "throws E v")
    case True
    then have "construct E (Ptr (Some b) j) (Ref (Ptr (Some a) i)) h = Throws ElemThrew h"
      using Suc.prems v by (simp add: construct_def arg_value_def peek_eq)
    moreover have "\<exists>k x. i \<le> k \<and> k < i + Suc n \<and> xs ! k = Some x \<and> throws E x"
      using True v by (intro exI[of _ i] exI[of _ v]) simp
    ultimately show ?thesis by simp
  next
    case False
    then have step: "construct E (Ptr (Some b) j) (Ref (Ptr (Some a) i)) h = Returns () ?h1"
      using Suc.prems v by (simp add: construct_def arg_value_def peek_eq poke_eq)
    have IH: "uninitialized_copy_n E (Ptr (Some a) (Suc i)) n (Ptr (Some b) (Suc j)) ?h1 =
           (if \<exists>k x. Suc i \<le> k \<and> k < Suc i + n \<and> xs ! k = Some x \<and> throws E x
            then Throws ElemThrew ?h1
            else Returns () (set_block b (upd_range (Suc j) n (\<lambda>k. xs ! (k + Suc i - Suc j)) ?ys1) ?h1))"
      using Suc.prems la lb by (intro Suc.IH) auto
    have ex: "(\<exists>k x. i \<le> k \<and> k < i + Suc n \<and> xs ! k = Some x \<and> throws E x)
            = (\<exists>k x. Suc i \<le> k \<and> k < Suc i + n \<and> xs ! k = Some x \<and> throws E x)"
    proof
      assume "\<exists>k x. i \<le> k \<and> k < i + Suc n \<and> xs ! k = Some x \<and> throws E x"
      then obtain k x where k: "i \<le> k" "k < i + Suc n" "xs ! k = Some x" "throws E x" by blast
      with False v have "k \<noteq> i" by auto
      with k show "\<exists>k x. Suc i \<le> k \<and> k < Suc i + n \<and> xs ! k = Some x \<and> throws E x"
        by (intro exI[of _ k] exI[of _ x]) simp
    next
      assume "\<exists>k x. Suc i \<le> k \<and> k < Suc i + n \<and> xs ! k = Some x \<and> throws E x"
      then obtain k x where k: "Suc i \<le> k" "k < Suc i + n" "xs ! k = Some x" "throws E x" by blast
      then show "\<exists>k x. i \<le> k \<and> k < i + Suc n \<and> xs ! k = Some x \<and> throws E x"
        by (intro exI[of _ k] exI[of _ x]) simp
    qed
    have undo: "destroy_at (Ptr (Some b) j) ?h1 = Some h"
    proof -
      have "ys ! j = None" using Suc.prems(7) by simp
      then have "ys[j := None] = ys" by (metis list_update_id)
      then show ?thesis
        using Suc.prems lb by (simp add: destroy_at_def peek_eq poke_eq set_block_same)
    qed
    have "upd_range (Suc j) n (\<lambda>k. xs ! (k + Suc i - Suc j)) ?ys1
          = upd_range (Suc j) n (\<lambda>k. xs ! (k + i - j)) ?ys1"
      by (rule upd_range_cong) simp
    also have "\<dots> = upd_range j (Suc n) (\<lambda>k. xs ! (k + i - j)) ys"
      using upd_range_Suc[of j ys n "\<lambda>k. xs ! (k + i - j)"] Suc.prems v by simp
    finally have e2: "upd_range (Suc j) n (\<lambda>k. xs ! (k + Suc i - Suc j)) ?ys1
          = upd_range j (Suc n) (\<lambda>k. xs ! (k + i - j)) ys" .
    have first: "uninitialized_copy_n E (Ptr (Some a) i) (Suc n) (Ptr (Some b) j) h =
        (case uninitialized_copy_n E (Ptr (Some a) (Suc i)) n (Ptr (Some b) (Suc j)) ?h1 of
             Undefined \<Rightarrow> Undefined
           | Throws e h'' \<Rightarrow>
               (case destroy_at (Ptr (Some b) j) h'' of
                  None \<Rightarrow> Undefined
                | Some h3 \<Rightarrow> Throws e h3)
           | Returns u h'' \<Rightarrow> Returns u h'')"
      by (simp add: step)
    show ?thesis
    proof (cases "\<exists>k x. Suc i \<le> k \<and> k < Suc i + n \<and> xs ! k = Some x \<and> throws E x")
      case True
      with IH have "uninitialized_copy_n E (Ptr (Some a) (Suc i)) n (Ptr (Some b) (Suc j)) ?h1
          = Throws ElemThrew ?h1" by (simp only: if_True)
      with first undo have "uninitialized_copy_n E (Ptr (Some a) i) (Suc n) (Ptr (Some b) j) h
          = Throws ElemThrew h" by simp
      moreover from True ex have "\<exists>k x. i \<le> k \<and> k < i + Suc n \<and> xs ! k = Some x \<and> throws E x"
        by simp
      ultimately show ?thesis by (simp only: if_True)
    next
      case False
      with IH have "uninitialized_copy_n E (Ptr (Some a) (Suc i)) n (Ptr (Some b) (Suc j)) ?h1
          = Returns () (set_block b (upd_range (Suc j) n (\<lambda>k. xs ! (k + Suc i - Suc j)) ?ys1) ?h1)"
        by (simp only: if_False)
      with first have "uninitialized_copy_n E (Ptr (Some a) i) (Suc n) (Ptr (Some b) j) h
          = Returns () (set_block b (upd_range j (Suc n) (\<lambda>k. xs ! (k + i - j)) ys) h)"
        unfolding e2 by simp
      moreover from False ex have "\<not> (\<exists>k x. i \<le> k \<and> k < i + Suc n \<and> xs ! k = Some x \<and> throws E x)"
        by simp
      ultimately show ?thesis by (simp only: if_False)
    qed
  qed
qed

lemma destroy_n_eq:
  assumes "block_at h (Some a) = Some xs" "i + n \<le> length xs"
    "\<forall>k. i \<le> k \<and> k < i + n \<longrightarrow> xs ! k \<noteq> None"
  shows "destroy_n (Ptr (Some a) i) n h = Some (set_block a (upd_range i n (\<lambda>k. None) xs) h)"
  using assms
proof (induction n arbitrary: i xs h)
  case 0
  then show ?case by (simp add: set_block_same)
next
  case (Suc n)
  from live_at[OF Suc.prems(3), of i] obtain v where v: "xs ! i = Some v" by auto
  let ?xs1 = "xs[i := None]"
  have la: "a < length (blocks h)" using Suc.prems block_at_Some_lt by blast
  have step: "destroy_at (Ptr (Some a) i) h = Some (set_block a ?xs1 h)"
    using Suc.prems v by (simp add: destroy_at_def peek_eq poke_eq)
  have IH: "destroy_n (Ptr (Some a) (Suc i)) n (set_block a ?xs1 h)
      = Some (set_block a (upd_range (Suc i) n (\<lambda>k. None) ?xs1) (set_block a ?xs1 h))"
    using Suc.prems la by (intro Suc.IH) auto
  have e1: "upd_range (Suc i) n (\<lambda>k. None) ?xs1 = upd_range i (Suc n) (\<lambda>k. None) xs"
    using upd_range_Suc[of i xs n "\<lambda>k. None"] Suc.prems by simp
  show ?case by (simp add: step IH e1)
qed

lemma uninitialized_value_construct_n_eq:
  assumes "block_at h (Some a) = Some xs" "i + n \<le> length xs"
  shows "uninitialized_value_construct_n E (Ptr (Some a) i) n h =
           (if n \<noteq> 0 \<and> init_throws E then Throws ElemThrew h
            else Returns () (set_block a (upd_range i n (\<lambda>k. Some (init E)) xs) h))"
  using assms
proof (induction n arbitrary: i xs h)
  case 0
  then show ?case by (simp add: set_block_same)
next
  case (Suc n)
  let ?xs1 = "xs[i := Some (init E)]"
  have la: "a < length (blocks h)" using Suc.prems block_at_Some_lt by blast
  have step: "poke (Ptr (Some a) i) (Some (init E)) h = Some (set_block a ?xs1 h)"
    using Suc.prems by (simp add: poke_eq)
  have IH: "uninitialized_value_construct_n E (Ptr (Some a) (Suc i)) n (set_block a ?xs1 h) =
           (if n \<noteq> 0 \<and> init_throws E then Throws ElemThrew (set_block a ?xs1 h)
            else Returns () (set_block a (upd_range (Suc i) n (\<lambda>k. Some (init E)) ?xs1) (set_block a ?xs1 h)))"
    using Suc.prems la by (intro Suc.IH) auto
  have e1: "upd_range (Suc i) n (\<lambda>k. Some (init E)) ?xs1 = upd_range i (Suc n) (\<lambda>k. Some (init E)) xs"
    using upd_range_Suc[of i xs n "\<lambda>k. Some (init E)"] Suc.prems by simp
  show ?case by (simp add: step IH e1)
qed



section \<open>The size of a block\<close>

lemma block_len_poke: "poke p s h = Some h' \<Longrightarrow> block_len h' q = block_len h q"
  by (cases q)
     (auto simp: poke_def block_len_def block_at_def nth_list_update
        split: option.splits if_splits)


lemma block_len_destroy_at: "destroy_at p h = Some h' \<Longrightarrow> block_len h' q = block_len h q"
  by (auto simp: destroy_at_def block_len_poke split: option.splits)





section \<open>The byte count of an allocation\<close>

lemma granted_le: "granted E n \<le> n"
proof (cases "sizeof E = 0")
  case True
  then show ?thesis by (simp add: granted_def)
next
  case False
  have "size_t (n * sizeof E) \<le> n * sizeof E" by (simp add: size_t_def)
  then have "size_t (n * sizeof E) div sizeof E \<le> n * sizeof E div sizeof E"
    by (rule div_le_mono)
  with False show ?thesis by (simp add: granted_def)
qed

lemma granted_eq: "0 < sizeof E \<Longrightarrow> n * sizeof E \<le> SIZE_MAX \<Longrightarrow> granted E n = n"
  by (simp add: granted_def size_t_def)

lemma granted_0 [simp]: "granted E 0 = 0"
  by (simp add: granted_def size_t_def)

lemma granted_growth:
  assumes "c < granted E (if c = 0 then 1 else c * 2)"
  shows "granted E (if c = 0 then 1 else c * 2) = (if c = 0 then 1 else c * 2)"
proof -
  define s where "s = sizeof E"
  define M where "M = SIZE_MAX + 1"
  define n where "n = (if c = 0 then 1 else c * 2)"
  have g: "granted E n = (n * s mod M) div s" by (simp add: granted_def size_t_def s_def M_def)
  have M0: "0 < M" by (simp add: M_def)
  from assms have cg: "c < (n * s mod M) div s" unfolding n_def[symmetric] g .
  then have s0: "0 < s" by (cases "s = 0") simp_all
  have "n * s < M"
  proof (rule ccontr)
    assume "\<not> n * s < M"
    then have big: "M \<le> n * s" by simp
    have "n * s mod M < c * s + s"
    proof (cases "c = 0")
      case True
      then have "n * s mod M < M" using M0 by simp
      also have "M \<le> s" using big True by (simp add: n_def)
      finally show ?thesis by simp
    next
      case False
      then have n2: "n * s = c * s + c * s" by (simp add: n_def algebra_simps)
      show ?thesis
      proof (cases "M \<le> c * s")
        case True
        have "n * s mod M < M" using M0 by simp
        with True show ?thesis by simp
      next
        case False
        then have lt: "c * s < M" by simp
        have "n * s mod M = (n * s - M) mod M" using big by (simp add: le_mod_geq)
        also have "\<dots> = n * s - M" using lt n2 by simp
        also have "\<dots> < c * s" using lt n2 big by simp
        finally show ?thesis by simp
      qed
    qed
    then have "n * s mod M < (c + 1) * s" by (simp add: algebra_simps)
    then have "(n * s mod M) div s < c + 1" using s0 by (simp add: div_less_iff_less_mult)
    with cg show False by simp
  qed
  then have "granted E n = n" using s0 by (simp add: g)
  then show ?thesis by (simp add: n_def)
qed

text \<open>
  \<^verbatim>\<open>Capacity() * 2\<close> in \<^verbatim>\<open>size_t\<close>: the byte count of the request is the same whether the
  doubled capacity is wrapped first or not, and where the block granted has room for the
  old elements and the new one, the doubled capacity did not wrap.
\<close>

lemma doubling_byte_count: "size_t (size_t n * s) = size_t (n * s)"
  by (simp add: size_t_def mod_mult_left_eq)

lemma doubling_fits_size_t:
  assumes "c < granted E (if c = 0 then 1 else c * 2)"
  shows "size_t (if c = 0 then 1 else c * 2) = (if c = 0 then 1 else c * 2)"
proof -
  define n where "n = (if c = 0 then 1 else c * 2)"
  define s where "s = sizeof E"
  define M where "M = SIZE_MAX + 1"
  from granted_growth[OF assms] have g: "(n * s mod M) div s = n"
    by (simp add: granted_def size_t_def n_def s_def M_def)
  have n1: "1 \<le> n" by (simp add: n_def)
  have s0: "0 < s" using g n1 by (cases "s = 0") simp_all
  have "n * s = (n * s mod M) div s * s" using g by simp
  also have "\<dots> \<le> n * s mod M" by (rule div_times_less_eq_dividend)
  also have "\<dots> < M" by (simp add: M_def)
  finally have lt: "n * s < M" .
  have le: "n \<le> n * s" using s0 by (cases s) simp_all
  from le lt have "n < M" by (rule le_less_trans)
  then show ?thesis by (simp add: size_t_def n_def M_def)
qed

section \<open>Evaluating the model\<close>

lemma Allocate_granted:
  "Allocate E n h =
     (if n \<noteq> 0
      then (if free_slots h < granted E n then Inl BadAlloc
            else Inr (Some (length (blocks h)),
                      h\<lparr>blocks := blocks h @ [Some (replicate (granted E n) None)],
                        free_slots := free_slots h - granted E n\<rparr>))
      else Inr (None, h))"
  by (simp add: Allocate_def operator_new_def granted_def)

lemma granted_small: "0 < sizeof E \<Longrightarrow> sizeof E \<le> 64 \<Longrightarrow> n \<le> 64 \<Longrightarrow> granted E n = n"
proof (rule granted_eq)
  assume "sizeof E \<le> 64" "n \<le> 64"
  then have "n * sizeof E \<le> 64 * 64" by (rule mult_le_mono[rotated])
  then show "n * sizeof E \<le> SIZE_MAX" by (simp add: SIZE_MAX_def)
qed

lemmas model_defs =
  Reserve_def PushBack_def EmplaceBack_def Emplace_def Insert_def Erase_def Resize_def PopBack_def
  RawMemory_new_def Allocate_granted granted_small Capacity_def RawMemory_Capacity_def Vector_default_def
  RawMemory_default_def GetAddress_def Size_def begin_it_def end_it_def adopt_def
  RawMemory_Swap_def RawMemory_dtor_def Deallocate_def block_at_def unwind_def then_do_def
  catch_rethrow_def construct_def arg_value_def poke_def peek_def RawMemory_plus_def
  move_construct_def move_assign_def assign_value_def destroy_at_def ptr_add_def
  move_assignment_def Swap_def Vector_move_ctor_def RawMemory_move_ctor_def
  RawMemory_move_assign_def RawMemory_move_assign_body_def valid_def elems_def all_live_def

lemmas example_defs =
  elem_int_def elem_int_vector_def elem_throwing_def empty_heap_def two_blocks_def vec_a_def
  vec_b_def nested_heap_def nested_vec_def

section \<open>Allocation, release and reallocation\<close>

lemma block_at_alloc_heap [simp]:
  "block_at (alloc_heap n h) q =
     (if q = Some (length (blocks h)) then Some (replicate n None) else block_at h q)"
  by (cases q) (auto simp: block_at_def alloc_heap_def nth_append)

lemma length_blocks_alloc_heap [simp]: "length (blocks (alloc_heap n h)) = Suc (length (blocks h))"
  by (simp add: alloc_heap_def)

lemma free_slots_alloc_heap [simp]: "free_slots (alloc_heap n h) = free_slots h - n"
  by (simp add: alloc_heap_def)

lemma block_at_release [simp]:
  "block_at (release a blk h) q = (if q = Some a then None else block_at h q)"
  by (cases q) (auto simp: block_at_def release_def)

lemma length_blocks_release [simp]: "length (blocks (release a blk h)) = length (blocks h)"
  by (simp add: release_def)

lemma free_slots_release [simp]: "free_slots (release a blk h) = free_slots h + length blk"
  by (simp add: release_def)

lemma RawMemory_new_eq:
  "RawMemory_new E n h =
     (if n = 0 then Inr (\<lparr>buffer_m = None, capacity_m = 0\<rparr>, h)
      else if free_slots h < granted E n then Inl BadAlloc
      else Inr (\<lparr>buffer_m = Some (length (blocks h)), capacity_m = n\<rparr>,
                alloc_heap (granted E n) h))"
  by (simp add: RawMemory_new_def Allocate_granted alloc_heap_def)

lemma RawMemory_new_capacity: "RawMemory_new E n h = Inr (nd, h1) \<Longrightarrow> capacity_m nd = n"
  by (auto simp: RawMemory_new_eq split: if_splits)

lemma unwind_not_Returns [simp]: "unwind nd e h v \<noteq> Returns r st"
  by (simp add: unwind_def split: option.splits)

lemma Deallocate_eq:
  "block_at h (Some a) = Some blk \<Longrightarrow> Deallocate (Some a) h = Some (release a blk h)"
  by (simp add: Deallocate_def release_def)

lemma Deallocate_None [simp]: "Deallocate None h = Some h"
  by (simp add: Deallocate_def)

lemma validD:
  assumes "valid h v" "buffer_m (data_m v) = Some a"
  obtains xs where "block_at h (Some a) = Some xs" "length xs = Capacity v"
    "size_m v \<le> Capacity v" "\<forall>k. 0 \<le> k \<and> k < 0 + size_m v \<longrightarrow> xs ! k \<noteq> None"
  using assms
  by (auto simp: valid_def all_live_def list_all_length split: option.splits)

lemma valid_None:
  "valid h v \<Longrightarrow> buffer_m (data_m v) = None \<Longrightarrow> size_m v = 0 \<and> Capacity v = 0"
  by (simp add: valid_def)

lemma validI:
  "block_at h (Some a) = Some xs \<Longrightarrow> buffer_m (data_m v) = Some a \<Longrightarrow> length xs = Capacity v \<Longrightarrow>
   size_m v \<le> Capacity v \<Longrightarrow> (\<And>k. k < size_m v \<Longrightarrow> xs ! k \<noteq> None) \<Longrightarrow> valid h v"
  by (auto simp: valid_def all_live_def list_all_length)

lemma elems_eq:
  "block_at h (Some a) = Some xs \<Longrightarrow> buffer_m (data_m v) = Some a \<Longrightarrow> elems h v = take (size_m v) xs"
  by (simp add: elems_def)

lemma RawMemory_update_all [simp]:
  "(m :: RawMemory)\<lparr>buffer_m := b, capacity_m := c\<rparr> = \<lparr>buffer_m = b, capacity_m = c\<rparr>"
  by (cases m) simp

lemma RawMemory_eta [simp]:
  "\<lparr>buffer_m = buffer_m (m :: RawMemory), capacity_m = capacity_m m\<rparr> = m"
  by (cases m) simp

text \<open>The end of a reallocation.\<close>

lemma adopt_eq:
  assumes "valid h v"
  shows "\<exists>h'. adopt nd h v = Some (h', nd)
           \<and> (\<forall>q. q \<noteq> buffer_m (data_m v) \<longrightarrow> block_at h' q = block_at h q)
           \<and> length (blocks h') = length (blocks h)"
proof (cases "buffer_m (data_m v)")
  case None
  with assms have "size_m v = 0" by (simp add: valid_None)
  with None show ?thesis
    by (simp add: adopt_def RawMemory_Swap_def RawMemory_dtor_def)
next
  case (Some a)
  from validD[OF assms Some] obtain xs where xs: "block_at h (Some a) = Some xs"
    "length xs = Capacity v" "size_m v \<le> Capacity v"
    "\<forall>k. 0 \<le> k \<and> k < 0 + size_m v \<longrightarrow> xs ! k \<noteq> None" by blast
  let ?xs' = "upd_range 0 (size_m v) (\<lambda>k. None) xs"
  have d: "destroy_n (GetAddress (data_m v)) (size_m v) h = Some (set_block a ?xs' h)"
    unfolding GetAddress_def Some using xs by (intro destroy_n_eq) auto
  have la: "a < length (blocks h)" using xs block_at_Some_lt by blast
  have r: "RawMemory_dtor \<lparr>buffer_m = Some a, capacity_m = capacity_m (data_m v)\<rparr> (set_block a ?xs' h)
      = Some (release a ?xs' (set_block a ?xs' h))"
    unfolding RawMemory_dtor_def using la by (simp add: Deallocate_eq)
  show ?thesis
    using la by (simp add: adopt_def d RawMemory_Swap_def Some r)
qed

lemma unwind_eq:
  assumes "block_at h (buffer_m nd) = Some blk"
  shows "\<exists>h'. unwind nd e h v = Throws e (h', v)
           \<and> (\<forall>q. q \<noteq> buffer_m nd \<longrightarrow> block_at h' q = block_at h q)"
proof -
  from assms obtain b where b: "buffer_m nd = Some b" by (cases "buffer_m nd") auto
  with assms show ?thesis
    by (simp add: unwind_def RawMemory_dtor_def Deallocate_eq)
qed


lemma some_throws_take:
  "n \<le> length xs \<Longrightarrow>
   some_throws E (take n xs) \<longleftrightarrow> (\<exists>k x. 0 \<le> k \<and> k < 0 + n \<and> xs ! k = Some x \<and> throws E x)"
proof -
  assume n: "n \<le> length xs"
  have "some_throws E (take n xs) \<longleftrightarrow>
        (\<exists>k<n. case xs ! k of None \<Rightarrow> False | Some x \<Rightarrow> throws E x)"
    using n by (simp add: some_throws_def list_ex_length cong: conj_cong)
  also have "\<dots> \<longleftrightarrow> (\<exists>k x. 0 \<le> k \<and> k < 0 + n \<and> xs ! k = Some x \<and> throws E x)"
    by (auto split: option.splits)
  finally show ?thesis .
qed

lemma some_move_throws_take:
  "n \<le> length xs \<Longrightarrow>
   some_move_throws E (take n xs) \<longleftrightarrow> (\<exists>k x. 0 \<le> k \<and> k < 0 + n \<and> xs ! k = Some x \<and> move_throws E x)"
proof -
  assume n: "n \<le> length xs"
  have "some_move_throws E (take n xs) \<longleftrightarrow>
        (\<exists>k<n. case xs ! k of None \<Rightarrow> False | Some x \<Rightarrow> move_throws E x)"
    using n by (simp add: some_move_throws_def list_ex_length cong: conj_cong)
  also have "\<dots> \<longleftrightarrow> (\<exists>k x. 0 \<le> k \<and> k < 0 + n \<and> xs ! k = Some x \<and> move_throws E x)"
    by (auto split: option.splits)
  finally show ?thesis .
qed

text \<open>
  The outcomes of \<^verbatim>\<open>Reserve\<close> beyond the capacity, when the byte count of the request
  does not wrap.
\<close>

lemma Reserve_outcome:
  assumes "valid h v" "Capacity v < n" "granted E n = n"
  shows "(free_slots h < n \<and> Reserve E n h v = Throws BadAlloc (h, v))
       \<or> (n \<le> free_slots h \<and> \<not> nothrow_move E \<and> some_throws E (elems h v)
           \<and> (\<exists>h'. Reserve E n h v = Throws ElemThrew (h', v) \<and> valid h' v \<and> elems h' v = elems h v))
       \<or> (n \<le> free_slots h \<and> nothrow_move E \<and> some_move_throws E (elems h v)
           \<and> (\<forall>u st. Reserve E n h v \<noteq> Returns u st))
       \<or> (n \<le> free_slots h \<and> \<not> transfer_throws E (elems h v)
           \<and> (\<exists>h' v'. Reserve E n h v = Returns () (h', v') \<and> valid h' v' \<and> Capacity v' = n
                 \<and> size_m v' = size_m v
                 \<and> block_at h' (buffer_m (data_m v')) = Some (elems h v @ replicate (n - size_m v) None)))"
proof (cases "free_slots h < n")
  case True
  with assms show ?thesis by (simp add: Reserve_def RawMemory_new_eq)
next
  case False
  let ?b = "length (blocks h)"
  let ?nd = "\<lparr>buffer_m = Some ?b, capacity_m = n\<rparr>"
  let ?h1 = "alloc_heap n h"
  let ?s = "size_m v"
  have new: "RawMemory_new E n h = Inr (?nd, ?h1)"
    using False assms by (simp add: RawMemory_new_eq)
  show ?thesis
  proof (cases "buffer_m (data_m v)")
    case None
    with assms have z: "size_m v = 0" by (simp add: valid_None)
    have "Reserve E n h v = Returns () (?h1, v\<lparr>data_m := ?nd\<rparr>)"
      using assms None z
      by (simp add: Reserve_def new Size_def adopt_def RawMemory_Swap_def RawMemory_dtor_def)
    moreover have "valid ?h1 (v\<lparr>data_m := ?nd\<rparr>)"
      using z by (simp add: valid_def Capacity_def RawMemory_Capacity_def all_live_def)
    ultimately show ?thesis
      using False None z
      by (simp add: Capacity_def RawMemory_Capacity_def elems_def some_throws_def
          some_move_throws_def transfer_throws_def)
  next
    case (Some a)
    from validD[OF assms(1) Some] obtain xs where xs: "block_at h (Some a) = Some xs"
      "length xs = Capacity v" "size_m v \<le> Capacity v"
      "\<forall>k. 0 \<le> k \<and> k < 0 + size_m v \<longrightarrow> xs ! k \<noteq> None" by blast
    have la: "a < ?b" using xs block_at_Some_lt by blast
    then have ab: "a \<noteq> ?b" by simp
    have el: "elems h v = take ?s xs" using xs Some by (simp add: elems_eq)
    let ?ys = "replicate n (None :: 'a option)"
    let ?ys' = "upd_range 0 ?s ((!) xs) ?ys"
    have xa1: "block_at ?h1 (Some a) = Some xs" using xs la by simp
    have xb1: "block_at ?h1 (Some ?b) = Some ?ys" by simp
    have sn: "?s \<le> n" using xs assms by simp
    have ys'_eq: "?ys' = take ?s xs @ replicate (n - ?s) None"
      using sn xs by (auto simp: list_eq_iff_nth_eq nth_append)
    have finish: "\<exists>h' v'. Reserve E n h v = Returns () (h', v') \<and> valid h' v' \<and> Capacity v' = n
                 \<and> size_m v' = size_m v
                 \<and> block_at h' (buffer_m (data_m v')) = Some (elems h v @ replicate (n - size_m v) None)"
      if t: "(if nothrow_move E
                    then uninitialized_move_n E (GetAddress (data_m v)) (Size v) (GetAddress ?nd) ?h1
                    else uninitialized_copy_n E (GetAddress (data_m v)) (size_m v) (GetAddress ?nd) ?h1)
             = Returns () h2"
        and v2: "valid h2 v" and b2: "block_at h2 (Some ?b) = Some ?ys'" for h2
    proof -
      from adopt_eq[OF v2, of ?nd] obtain h3 where h3: "adopt ?nd h2 v = Some (h3, ?nd)"
        "\<forall>q. q \<noteq> buffer_m (data_m v) \<longrightarrow> block_at h3 q = block_at h2 q" by blast
      have r: "Reserve E n h v = Returns () (h3, v\<lparr>data_m := ?nd\<rparr>)"
        using assms by (simp add: Reserve_def new t h3)
      have b3: "block_at h3 (Some ?b) = Some ?ys'" using h3(2) b2 Some ab by simp
      have "valid h3 (v\<lparr>data_m := ?nd\<rparr>)"
      proof (rule validI[OF b3])
        fix k assume "k < size_m (v\<lparr>data_m := ?nd\<rparr>)"
        then show "?ys' ! k \<noteq> None" using xs sn by simp
      qed (use sn in \<open>simp_all add: Capacity_def RawMemory_Capacity_def\<close>)
      with r b3 show ?thesis
        by (simp add: Capacity_def RawMemory_Capacity_def el ys'_eq)
    qed
    show ?thesis
    proof (cases "nothrow_move E")
      case True
      show ?thesis
      proof (cases "some_move_throws E (elems h v)")
        case mt: True
        then have ex: "\<exists>k x. 0 \<le> k \<and> k < 0 + ?s \<and> xs ! k = Some x \<and> move_throws E x"
          using some_move_throws_take[of ?s xs E] xs el by simp
        have a1: "0 + ?s \<le> length xs" and a2: "0 + ?s \<le> length ?ys" using xs sn by simp_all
        have "uninitialized_move_n E (Ptr (Some a) 0) ?s (Ptr (Some ?b) 0) ?h1 \<noteq> Returns u h'"
          for u h'
          by (rule uninitialized_move_n_throws[OF xa1 xb1 ab a1 a2 xs(4) ex])
        then have "Reserve E n h v \<noteq> Returns u st" for u st
          using assms True Some
          by (auto simp: Reserve_def new GetAddress_def Size_def split: outcome.splits option.splits)
        with mt True False show ?thesis by simp
      next
        case nmt: False
        then have nex: "\<forall>k x. 0 \<le> k \<and> k < 0 + ?s \<and> xs ! k = Some x \<longrightarrow> \<not> move_throws E x"
          using some_move_throws_take[of ?s xs E] xs(2,3) el by auto
        let ?xs' = "upd_range 0 ?s (\<lambda>k. map_option (moved E) (xs ! k)) xs"
        let ?h2 = "set_block a ?xs' (set_block ?b ?ys' ?h1)"
        have a1: "0 + ?s \<le> length xs" and a2: "0 + ?s \<le> length ?ys" using xs sn by simp_all
        have m: "uninitialized_move_n E (Ptr (Some a) 0) ?s (Ptr (Some ?b) 0) ?h1 = Returns () ?h2"
          using uninitialized_move_n_eq[OF xa1 xb1 ab a1 a2 xs(4) nex] by simp
        have v2: "valid ?h2 v"
        proof (rule validI[OF _ Some])
          show "block_at ?h2 (Some a) = Some ?xs'" using la by simp
          fix k assume "k < size_m v"
          then show "?xs' ! k \<noteq> None" using xs by simp
        qed (use xs in simp_all)
        have b2: "block_at ?h2 (Some ?b) = Some ?ys'" using ab by simp
        from finish[of ?h2] True m v2 b2 Some False nmt show ?thesis
          by (simp add: GetAddress_def Size_def transfer_throws_def)
      qed
    next
      case nm: False
      show ?thesis
      proof (cases "some_throws E (elems h v)")
        case True
        then have ex: "\<exists>k x. 0 \<le> k \<and> k < 0 + ?s \<and> xs ! k = Some x \<and> throws E x"
          using some_throws_take[of ?s xs E] xs el by simp
        have c: "uninitialized_copy_n E (Ptr (Some a) 0) ?s (Ptr (Some ?b) 0) ?h1 = Throws ElemThrew ?h1"
          using uninitialized_copy_n_eq[OF xa1 xb1 ab, of 0 ?s 0 E] xs sn ex by simp
        from unwind_eq[of ?h1 ?nd ?ys ElemThrew v] obtain h' where
          h': "(unwind ?nd ElemThrew ?h1 v :: (unit, 'a heap \<times> Vector) outcome) = Throws ElemThrew (h', v)"
          "\<forall>q. q \<noteq> buffer_m ?nd \<longrightarrow> block_at h' q = block_at ?h1 q" by auto
        have r: "Reserve E n h v = Throws ElemThrew (h', v)"
          using assms nm Some by (simp add: Reserve_def new GetAddress_def c h')
        have xa': "block_at h' (Some a) = Some xs" using h'(2) ab xa1 by simp
        have "valid h' v" using xs by (intro validI[OF xa' Some]) auto
        moreover have "elems h' v = elems h v" using xa' Some el by (simp add: elems_eq)
        ultimately show ?thesis using r nm True False by simp
      next
        case nt: False
        then have ex: "\<not> (\<exists>k x. 0 \<le> k \<and> k < 0 + ?s \<and> xs ! k = Some x \<and> throws E x)"
          using some_throws_take[of ?s xs E] xs el by simp
        let ?h2 = "set_block ?b ?ys' ?h1"
        have c: "uninitialized_copy_n E (Ptr (Some a) 0) ?s (Ptr (Some ?b) 0) ?h1 = Returns () ?h2"
          using uninitialized_copy_n_eq[OF xa1 xb1 ab, of 0 ?s 0 E] xs sn ex by simp
        have xa2: "block_at ?h2 (Some a) = Some xs" using xa1 ab by simp
        have v2: "valid ?h2 v" using xs by (intro validI[OF xa2 Some]) auto
        have b2: "block_at ?h2 (Some ?b) = Some ?ys'" by simp
        from finish[of ?h2] nm c v2 b2 Some False nt show ?thesis
          by (simp add: GetAddress_def Size_def transfer_throws_def)
      qed
    qed
  qed
qed


lemma length_elems: "valid h v \<Longrightarrow> length (elems h v) = size_m v"
  by (auto simp: valid_def elems_def split: option.splits)

lemma elems_live: "valid h v \<Longrightarrow> k < size_m v \<Longrightarrow> elems h v ! k \<noteq> None"
  by (auto simp: valid_def elems_def all_live_def list_all_length split: option.splits)


lemma Reserve_noop: "n \<le> Capacity v \<Longrightarrow> Reserve E n h v = Returns () (h, v)"
  by (simp add: Reserve_def)

lemma Reserve_grows:
  assumes "valid h v" "Capacity v < n" "granted E n = n" "n \<le> free_slots h"
    "\<not> transfer_throws E (elems h v)"
  shows "\<exists>h' v'. Reserve E n h v = Returns () (h', v') \<and> valid h' v' \<and> Capacity v' = n
           \<and> size_m v' = size_m v
           \<and> block_at h' (buffer_m (data_m v')) = Some (elems h v @ replicate (n - size_m v) None)"
  using Reserve_outcome[OF assms(1,2,3)] assms(4,5) by (auto simp: transfer_throws_def)

section \<open>\<^verbatim>\<open>Resize\<close>\<close>

lemma valid_buffer_Some:
  "valid h v \<Longrightarrow> 0 < Capacity v \<Longrightarrow> \<exists>a. buffer_m (data_m v) = Some a"
  by (cases "buffer_m (data_m v)") (auto simp: valid_def)

lemma Resize_shrinks:
  assumes "valid h v" "n < size_m v"
  shows "\<exists>h'. Resize E n h v = Returns () (h', v\<lparr>size_m := n\<rparr>)
           \<and> valid h' (v\<lparr>size_m := n\<rparr>)
           \<and> elems h' v = take n (elems h v) @ replicate (size_m v - n) None"
proof -
  from assms have "0 < Capacity v" by (auto simp: valid_def)
  from valid_buffer_Some[OF assms(1) this] obtain a where a: "buffer_m (data_m v) = Some a" ..
  from validD[OF assms(1) a] obtain xs where xs: "block_at h (Some a) = Some xs"
    "length xs = Capacity v" "size_m v \<le> Capacity v"
    "\<forall>k. 0 \<le> k \<and> k < 0 + size_m v \<longrightarrow> xs ! k \<noteq> None" by blast
  let ?xs' = "upd_range n (size_m v - n) (\<lambda>k. None) xs"
  let ?h' = "set_block a ?xs' h"
  have la: "a < length (blocks h)" using xs block_at_Some_lt by blast
  have d: "destroy_n (Ptr (Some a) n) (size_m v - n) h = Some ?h'"
    using xs assms by (intro destroy_n_eq) auto
  have r: "Resize E n h v = Returns () (?h', v\<lparr>size_m := n\<rparr>)"
    using assms by (simp add: Resize_def RawMemory_plus_def a d)
  have b': "block_at ?h' (Some a) = Some ?xs'" using la by simp
  have "valid ?h' (v\<lparr>size_m := n\<rparr>)"
  proof (rule validI[OF b'])
    fix k assume "k < size_m (v\<lparr>size_m := n\<rparr>)"
    then show "?xs' ! k \<noteq> None" using xs assms by simp
  qed (use xs assms a in \<open>simp_all add: Capacity_def\<close>)
  moreover have "elems ?h' v = take n (elems h v) @ replicate (size_m v - n) None"
  proof -
    have e': "elems ?h' v = take (size_m v) ?xs'" by (rule elems_eq[OF b' a])
    have e: "elems h v = take (size_m v) xs" by (rule elems_eq[OF xs(1) a])
    have "take (size_m v) ?xs' = take n (take (size_m v) xs) @ replicate (size_m v - n) None"
      using xs(2,3) assms(2) by (auto simp: list_eq_iff_nth_eq nth_append)
    with e e' show ?thesis by simp
  qed
  ultimately show ?thesis using r by blast
qed

lemma Resize_same: "Resize E (size_m v) h v = Returns () (h, v)"
  by (simp add: Resize_def)

lemma valid_length:
  "valid h v \<Longrightarrow> block_at h (buffer_m (data_m v)) = Some blk \<Longrightarrow> length blk = Capacity v"
  by (cases "buffer_m (data_m v)") (auto simp: valid_def)

lemma Resize_grows:
  assumes "valid h v" "size_m v < n" "\<not> init_throws E"
    "n \<le> Capacity v
     \<or> (granted E n = n \<and> n \<le> free_slots h \<and> \<not> transfer_throws E (elems h v))"
  shows "\<exists>h' v'. Resize E n h v = Returns () (h', v') \<and> valid h' v' \<and> size_m v' = n
           \<and> Capacity v' = max (Capacity v) n
           \<and> elems h' v' = elems h v @ replicate (n - size_m v) (Some (init E))"
proof -
  have "\<exists>h1 v1 blk. Reserve E n h v = Returns () (h1, v1) \<and> valid h1 v1 \<and> size_m v1 = size_m v
          \<and> Capacity v1 = max (Capacity v) n
          \<and> block_at h1 (buffer_m (data_m v1)) = Some blk \<and> take (size_m v) blk = elems h v"
  proof (cases "n \<le> Capacity v")
    case True
    with assms have "0 < Capacity v" by simp
    from valid_buffer_Some[OF assms(1) this] obtain a where a: "buffer_m (data_m v) = Some a" ..
    from assms(1) a obtain xs where xs: "block_at h (Some a) = Some xs"
      by (auto simp: valid_def split: option.splits)
    have "Reserve E n h v = Returns () (h, v)" by (rule Reserve_noop[OF True])
    moreover have "take (size_m v) xs = elems h v" by (rule elems_eq[OF xs a, symmetric])
    moreover have "max (Capacity v) n = Capacity v" using True by simp
    ultimately show ?thesis
      using assms(1) xs a by (intro exI[of _ h] exI[of _ v] exI[of _ xs]) simp
  next
    case False
    with assms(4) have c: "Capacity v < n" "granted E n = n" "n \<le> free_slots h"
      "\<not> transfer_throws E (elems h v)" by auto
    from Reserve_grows[OF assms(1) c] obtain h1 v1 where
      g: "Reserve E n h v = Returns () (h1, v1)" "valid h1 v1" "Capacity v1 = n"
         "size_m v1 = size_m v"
         "block_at h1 (buffer_m (data_m v1)) = Some (elems h v @ replicate (n - size_m v) None)"
      by blast
    have "take (size_m v) (elems h v @ replicate (n - size_m v) None) = elems h v"
      using length_elems[OF assms(1)] by simp
    moreover have "max (Capacity v) n = n" using c(1) by simp
    ultimately show ?thesis
      using g by (intro exI[of _ h1] exI[of _ v1]
          exI[of _ "elems h v @ replicate (n - size_m v) None"]) simp
  qed
  then obtain h1 v1 blk where r: "Reserve E n h v = Returns () (h1, v1)" "valid h1 v1"
    "size_m v1 = size_m v" "Capacity v1 = max (Capacity v) n"
    "block_at h1 (buffer_m (data_m v1)) = Some blk" "take (size_m v) blk = elems h v" by blast
  from r(5) obtain b where b: "buffer_m (data_m v1) = Some b" by (cases "buffer_m (data_m v1)") auto
  have len: "length blk = Capacity v1" by (rule valid_length[OF r(2,5)])
  let ?blk' = "upd_range (size_m v) (n - size_m v) (\<lambda>k. Some (init E)) blk"
  let ?h' = "set_block b ?blk' h1"
  have lb: "b < length (blocks h1)" using r(5) b block_at_Some_lt by auto
  have "uninitialized_value_construct_n E (Ptr (Some b) (size_m v)) (n - size_m v) h1 =
          Returns () ?h'"
    using uninitialized_value_construct_n_eq[of h1 b blk "size_m v" "n - size_m v" E]
      r(4,5) b len assms by simp
  then have res: "Resize E n h v = Returns () (?h', v1\<lparr>size_m := n\<rparr>)"
    using assms r(1,3) b by (simp add: Resize_def RawMemory_plus_def)
  have b': "block_at ?h' (Some b) = Some ?blk'" using lb by simp
  have live: "\<And>k. k < size_m v \<Longrightarrow> blk ! k \<noteq> None"
  proof -
    fix k assume k: "k < size_m v"
    then have "blk ! k = elems h v ! k" using r(6)[symmetric] by simp
    with elems_live[OF assms(1) k] show "blk ! k \<noteq> None" by simp
  qed
  have "valid ?h' (v1\<lparr>size_m := n\<rparr>)"
  proof (rule validI[OF b'])
    fix k assume "k < size_m (v1\<lparr>size_m := n\<rparr>)"
    then have kn: "k < n" by simp
    show "?blk' ! k \<noteq> None"
    proof (cases "k < size_m v")
      case True
      then show ?thesis using live[of k] len r(4) kn by simp
    next
      case False
      then show ?thesis using len r(4) kn by simp
    qed
  qed (use b len r(4) in \<open>simp_all add: Capacity_def\<close>)
  moreover have "elems ?h' (v1\<lparr>size_m := n\<rparr>) = elems h v @ replicate (n - size_m v) (Some (init E))"
  proof -
    have "take n ?blk' = take (size_m v) blk @ replicate (n - size_m v) (Some (init E))"
      using len r(4) assms(2) by (auto simp: list_eq_iff_nth_eq nth_append)
    moreover have "elems ?h' (v1\<lparr>size_m := n\<rparr>) = take n ?blk'"
      using elems_eq[OF b', of "v1\<lparr>size_m := n\<rparr>"] b by simp
    ultimately show ?thesis using r(6) by simp
  qed
  ultimately show ?thesis using res r(4) by (auto simp: Capacity_def)
qed

lemma elems_shrink: "n \<le> size_m v \<Longrightarrow> elems h (v\<lparr>size_m := n\<rparr>) = take n (elems h v)"
  by (simp add: elems_def min_def split: option.splits)

section \<open>\<^verbatim>\<open>EmplaceBack\<close>\<close>

lemma block_at_fresh [simp]: "block_at h (Some (length (blocks h))) = None"
  by (simp add: block_at_def)

lemma peek_alloc_heap [simp]: "peek (alloc_heap n h) p = peek h p"
  by (cases p) (auto simp: peek_def split: option.splits)

lemma arg_value_alloc_heap [simp]: "arg_value (alloc_heap n h) args = arg_value h args"
  by (simp add: arg_value_def split: arg.splits)

lemma frame_valid:
  "block_at h' (buffer_m (data_m v)) = block_at h (buffer_m (data_m v)) \<Longrightarrow> valid h' v = valid h v"
  by (cases "buffer_m (data_m v)") (simp_all add: valid_def)

lemma frame_elems:
  "block_at h' (buffer_m (data_m v)) = block_at h (buffer_m (data_m v)) \<Longrightarrow> elems h' v = elems h v"
  by (simp add: elems_def)

lemma construct_eq:
  assumes "arg_value h args = Some c" "block_at h (Some b) = Some ys" "i < length ys"
  shows "construct E (Ptr (Some b) i) args h =
           (if throws E c then Throws ElemThrew h else Returns () (set_block b (ys[i := Some c]) h))"
  using assms by (simp add: construct_def poke_eq)

lemma unwind_frame:
  assumes "block_at h (buffer_m nd) = Some blk" "buffer_m nd \<noteq> buffer_m (data_m v)"
    "valid h v"
  shows "\<exists>h'. (unwind nd e h v :: ('r, 'a heap \<times> Vector) outcome) = Throws e (h', v)
           \<and> valid h' v \<and> elems h' v = elems h v"
proof -
  from unwind_eq[OF assms(1), of e v] obtain h' where
    h': "(unwind nd e h v :: ('r, 'a heap \<times> Vector) outcome) = Throws e (h', v)"
    "\<forall>q. q \<noteq> buffer_m nd \<longrightarrow> block_at h' q = block_at h q" by blast
  from h'(2) assms(2) have "block_at h' (buffer_m (data_m v)) = block_at h (buffer_m (data_m v))"
    by metis
  with frame_valid[OF this] frame_elems[OF this] assms(3) h'(1) show ?thesis by blast
qed


lemma EmplaceBack_spare:
  assumes v: "valid h v" and c: "arg_value h args = Some c" and spare: "size_m v \<noteq> Capacity v"
  shows "(throws E c \<and> EmplaceBack E args h v = Throws ElemThrew (h, v))
       \<or> (\<not> throws E c
           \<and> (\<exists>h' v'. EmplaceBack E args h v = Returns (Ptr (buffer_m (data_m v')) (size_m v)) (h', v')
                 \<and> valid h' v' \<and> size_m v' = size_m v + 1 \<and> Capacity v' = Capacity v
                 \<and> elems h' v' = elems h v @ [Some c]))"
proof -
  from v spare have lt: "size_m v < Capacity v" by (simp add: valid_def)
  then have "0 < Capacity v" by simp
  from valid_buffer_Some[OF v this] obtain a where a: "buffer_m (data_m v) = Some a" ..
  from validD[OF v a] obtain xs where xs: "block_at h (Some a) = Some xs"
    "length xs = Capacity v" "size_m v \<le> Capacity v"
    "\<forall>k. 0 \<le> k \<and> k < 0 + size_m v \<longrightarrow> xs ! k \<noteq> None" by blast
  have la: "a < length (blocks h)" using xs block_at_Some_lt by blast
  let ?xs' = "xs[size_m v := Some c]"
  let ?h' = "set_block a ?xs' h"
  let ?v' = "v\<lparr>size_m := size_m v + 1\<rparr>"
  have con: "construct E (Ptr (Some a) (size_m v)) args h =
      (if throws E c then Throws ElemThrew h else Returns () ?h')"
    using construct_eq[OF c xs(1), of "size_m v" E] lt xs(2) by simp
  show ?thesis
  proof (cases "throws E c")
    case True
    then show ?thesis using spare by (simp add: EmplaceBack_def RawMemory_plus_def a con)
  next
    case False
    have r: "EmplaceBack E args h v = Returns (Ptr (Some a) (size_m v)) (?h', ?v')"
      using spare False by (simp add: EmplaceBack_def RawMemory_plus_def a con)
    have b': "block_at ?h' (Some a) = Some ?xs'" using la by simp
    have "valid ?h' ?v'"
    proof (rule validI[OF b'])
      fix k assume "k < size_m ?v'"
      then show "?xs' ! k \<noteq> None" using xs lt by (cases "k = size_m v") simp_all
    qed (use a xs lt in \<open>simp_all add: Capacity_def\<close>)
    moreover have "elems ?h' ?v' = elems h v @ [Some c]"
    proof -
      have "elems ?h' ?v' = take (size_m v + 1) ?xs'"
        using elems_eq[OF b', of ?v'] a by simp
      moreover have "elems h v = take (size_m v) xs" by (rule elems_eq[OF xs(1) a])
      moreover have "take (size_m v + 1) ?xs' = take (size_m v) xs @ [Some c]"
        using lt xs(2) by (simp add: take_Suc_conv_app_nth)
      ultimately show ?thesis by simp
    qed
    ultimately show ?thesis using r False a by (intro disjI2) (auto simp: Capacity_def)
  qed
qed


text \<open>A throwing constructor on a full vector, whatever block the request gives.\<close>

lemma EmplaceBack_full_throws:
  assumes v: "valid h v" and c: "arg_value h args = Some c" and t: "throws E c"
    and full: "size_m v = Capacity v"
  shows "\<exists>e h'. EmplaceBack E args h v = Throws e (h', v) \<and> valid h' v \<and> elems h' v = elems h v
           \<and> (e = ElemThrew \<or> (e = BadAlloc \<and> free_slots h < max 1 (2 * Capacity v)))"
proof -
  define n where "n = (if size_m v = 0 then 1 else Capacity v * 2)"
  define k where "k = granted E n"
  have n_eq: "n = max 1 (2 * Capacity v)" and n0: "n \<noteq> 0"
    using full by (auto simp: n_def max_def)
  have kn: "k \<le> n" unfolding k_def by (rule granted_le)
  have unf: "EmplaceBack E args h v =
     (case RawMemory_new E n h of
           Inl e \<Rightarrow> Throws e (h, v)
         | Inr (new_data, h1) \<Rightarrow>
             (case (if nothrow_move E
                    then then_do (construct E (RawMemory_plus new_data (size_m v)) args h1)
                           (uninitialized_move_n E (GetAddress (data_m v)) (size_m v) (GetAddress new_data))
                    else then_do (construct E (RawMemory_plus new_data (size_m v)) args h1)
                           (uninitialized_copy_n E (GetAddress (data_m v)) (size_m v) (GetAddress new_data))) of
                Undefined \<Rightarrow> Undefined
              | Throws e h2 \<Rightarrow> unwind new_data e h2 v
              | Returns _ h2 \<Rightarrow>
                  (case adopt new_data h2 v of
                     None \<Rightarrow> Undefined
                   | Some (h3, d) \<Rightarrow>
                       Returns (RawMemory_plus d (size_m v + 1 - 1))
                         (h3, \<lparr>data_m = d, size_m = size_m v + 1\<rparr>))))"
    unfolding n_def EmplaceBack_def using full by simp
  show ?thesis
  proof (cases "free_slots h < k")
    case True
    then have "EmplaceBack E args h v = Throws BadAlloc (h, v)"
      using n0 by (simp add: unf RawMemory_new_eq k_def)
    moreover have "free_slots h < max 1 (2 * Capacity v)" using True kn n_eq by simp
    ultimately show ?thesis using v by blast
  next
    case False
    let ?b = "length (blocks h)"
    let ?nd = "\<lparr>buffer_m = Some ?b, capacity_m = n\<rparr>"
    let ?h1 = "alloc_heap k h"
    have new: "RawMemory_new E n h = Inr (?nd, ?h1)"
      using False n0 by (simp add: RawMemory_new_eq k_def)
    have nb: "Some ?b \<noteq> buffer_m (data_m v)"
      using v by (cases "buffer_m (data_m v)") (auto simp: valid_def split: option.splits)
    have v1: "valid ?h1 v"
      using frame_valid[of ?h1 v h] nb v by (cases "buffer_m (data_m v)") auto
    have e1: "elems ?h1 v = elems h v"
      using frame_elems[of ?h1 v h] nb by (cases "buffer_m (data_m v)") auto
    have con: "construct E (RawMemory_plus ?nd (size_m v)) args ?h1 = Throws ElemThrew ?h1"
      using c t by (simp add: construct_def)
    have thr: "(if nothrow_move E
                    then then_do (construct E (RawMemory_plus ?nd (size_m v)) args ?h1)
                           (uninitialized_move_n E (GetAddress (data_m v)) (size_m v) (GetAddress ?nd))
                    else then_do (construct E (RawMemory_plus ?nd (size_m v)) args ?h1)
                           (uninitialized_copy_n E (GetAddress (data_m v)) (size_m v) (GetAddress ?nd)))
               = Throws ElemThrew ?h1"
      by (simp add: con then_do_def)
    have b1: "block_at ?h1 (buffer_m ?nd) = Some (replicate k None)" by simp
    from unwind_frame[OF b1 _ v1, of ElemThrew] nb obtain h' where
      "(unwind ?nd ElemThrew ?h1 v :: (ptr, 'a heap \<times> Vector) outcome) = Throws ElemThrew (h', v)"
      "valid h' v" "elems h' v = elems ?h1 v" by auto
    then show ?thesis using e1 by (simp add: unf new thr)
  qed
qed


section \<open>\<^verbatim>\<open>Erase\<close> and \<^verbatim>\<open>Emplace\<close>\<close>


lemma catch_rethrow_Returns [simp]:
  "catch_rethrow m f = Returns u s \<longleftrightarrow> m = Returns u s"
  by (cases m) (auto simp: catch_rethrow_def split: option.splits)







lemma Emplace_grow_inv:
  assumes "Emplace E pos args h v = Returns it (h', v')" "pos \<noteq> end_it v"
    "size_m v = Capacity v"
  shows "\<exists>new_data h1 h2 d.
      RawMemory_new E (if size_m v = 0 then 1 else Capacity v * 2) h = Inr (new_data, h1)
    \<and> (if nothrow_move E then
         then_do (construct E (RawMemory_plus new_data (off pos - off (begin_it v))) args h1) (\<lambda>h2.
         then_do (uninitialized_move_n E (RawMemory_plus (data_m v) 0) (off pos - off (begin_it v))
                    (RawMemory_plus new_data 0) h2)
           (uninitialized_move_n E (RawMemory_plus (data_m v) (off pos - off (begin_it v)))
              (size_m v - (off pos - off (begin_it v)))
              (ptr_add (RawMemory_plus new_data (off pos - off (begin_it v))) 1)))
       else
         then_do (construct E (RawMemory_plus new_data (off pos - off (begin_it v))) args h1) (\<lambda>h2.
         then_do (catch_rethrow
                    (uninitialized_copy_n E (GetAddress (data_m v)) (off pos - off (begin_it v))
                       (GetAddress new_data) h2)
                    (destroy_n (RawMemory_plus new_data (off pos - off (begin_it v))) 1)) (\<lambda>h3.
         catch_rethrow
           (uninitialized_copy_n E (ptr_add (GetAddress (data_m v)) (off pos - off (begin_it v)))
              (size_m v - (off pos - off (begin_it v)))
              (ptr_add (ptr_add (GetAddress new_data) (off pos - off (begin_it v))) 1) h3)
           (destroy_n (RawMemory_plus new_data 0) (off pos - off (begin_it v)))))) = Returns () h2
    \<and> adopt new_data h2 v = Some (h', d)
    \<and> v' = \<lparr>data_m = d, size_m = size_m v + 1\<rparr>
    \<and> it = RawMemory_plus d (off pos - off (begin_it v))"
  using assms
  by (auto simp: Emplace_def Let_def unwind_def
      split: if_splits sum.splits outcome.splits option.splits prod.splits)









section \<open>Capacity under the operations\<close>

lemma adopt_data: "adopt nd h v = Some (h', d) \<Longrightarrow> d = nd"
  by (auto simp: adopt_def RawMemory_Swap_def split: option.splits)

lemma unwind_keeps: "keeps_capacity v (unwind nd e h v)"
  by (simp add: keeps_capacity_def unwind_def split: option.splits)

lemma keeps_capacity_simps [simp]:
  "keeps_capacity v (Returns r (h', v')) \<longleftrightarrow> Capacity v \<le> Capacity v'"
  "keeps_capacity v (Throws e (h', v')) \<longleftrightarrow> Capacity v \<le> Capacity v'"
  "keeps_capacity v Undefined"
  by (simp_all add: keeps_capacity_def)

lemma reallocation_keeps:
  assumes "RawMemory_new E n h = Inr (nd, h1)" "Capacity v \<le> n"
  shows "keeps_capacity v
     (case m of
        Undefined \<Rightarrow> Undefined
      | Throws e h2 \<Rightarrow> unwind nd e h2 v
      | Returns _ h2 \<Rightarrow>
          (case adopt nd h2 v of
             None \<Rightarrow> Undefined
           | Some (h3, d) \<Rightarrow> Returns (r d) (h3, \<lparr>data_m = d, size_m = k\<rparr>)))"
proof (cases m)
  case (Returns u h2)
  show ?thesis
  proof (cases "adopt nd h2 v")
    case None
    with Returns show ?thesis by simp
  next
    case (Some hd)
    obtain h3 d where hd: "hd = (h3, d)" by (cases hd)
    from adopt_data[OF Some[unfolded hd]] RawMemory_new_capacity[OF assms(1)] assms(2)
    show ?thesis using Returns Some hd by (simp add: Capacity_def RawMemory_Capacity_def)
  qed
next
  case (Throws e h2)
  then show ?thesis by (simp add: unwind_keeps)
next
  case Undefined
  then show ?thesis by simp
qed

lemma EmplaceBack_keeps: "keeps_capacity v (EmplaceBack E args h v)"
proof (cases "size_m v = Capacity v")
  case True
  let ?n = "if size_m v = 0 then 1 else Capacity v * 2"
  have n: "Capacity v \<le> ?n" using True by simp
  show ?thesis
  proof (cases "RawMemory_new E ?n h")
    case (Inl e)
    with True show ?thesis by (simp add: EmplaceBack_def)
  next
    case (Inr x)
    obtain nd h1 where x: "x = (nd, h1)" by (cases x)
    note keeps = reallocation_keeps[OF Inr[unfolded x] n]
    from True Inr x show ?thesis
      by (auto simp: EmplaceBack_def intro!: keeps)
  qed
next
  case False
  then show ?thesis
    by (simp add: EmplaceBack_def Capacity_def split: outcome.splits)
qed

lemma EmplaceBack_grows:
  assumes "size_m v = Capacity v" "EmplaceBack E args h v = Returns it (h', v')"
  shows "Capacity v' = max 1 (2 * Capacity v)"
proof -
  let ?n = "if size_m v = 0 then 1 else Capacity v * 2"
  have n: "?n = max 1 (2 * Capacity v)" using assms(1) by (simp add: max_def)
  from assms obtain nd h1 h2 d where "RawMemory_new E ?n h = Inr (nd, h1)"
    "adopt nd h2 v = Some (h', d)" "v' = \<lparr>data_m = d, size_m = size_m v + 1\<rparr>"
    by (auto simp: EmplaceBack_def split: sum.splits outcome.splits option.splits prod.splits)
  with adopt_data[of nd h2 v h' d] RawMemory_new_capacity[of E ?n h nd h1] n show ?thesis
    by (simp add: Capacity_def RawMemory_Capacity_def)
qed

lemma PushBack_keeps: "keeps_capacity v (PushBack E x h v)"
  using EmplaceBack_keeps[of v E x h]
  by (auto simp: PushBack_def keeps_capacity_def split: outcome.splits)

lemma PushBack_grows:
  assumes "size_m v = Capacity v" "PushBack E x h v = Returns u (h', v')"
  shows "Capacity v' = max 1 (2 * Capacity v)"
proof -
  from assms(2) obtain it where "EmplaceBack E x h v = Returns it (h', v')"
    by (auto simp: PushBack_def split: outcome.splits)
  from EmplaceBack_grows[OF assms(1) this] show ?thesis .
qed

lemma Emplace_keeps: "keeps_capacity v (Emplace E pos args h v)"
proof (cases "\<not> (base pos = base (begin_it v) \<and> off (begin_it v) \<le> off pos \<and> off pos \<le> off (end_it v))")
  case True
  then show ?thesis by (simp add: Emplace_def)
next
  case ok: False
  show ?thesis
  proof (cases "pos = end_it v")
    case True
    with ok EmplaceBack_keeps[of v E args h] show ?thesis
      by (auto simp: Emplace_def keeps_capacity_def split: outcome.splits)
  next
    case ne: False
    show ?thesis
    proof (cases "size_m v = Capacity v")
      case True
      let ?n = "if size_m v = 0 then 1 else Capacity v * 2"
      have n: "Capacity v \<le> ?n" using True by simp
      show ?thesis
      proof (cases "RawMemory_new E ?n h")
        case (Inl e)
        with True ok ne show ?thesis by (simp add: Emplace_def Let_def)
      next
        case (Inr x)
        obtain nd h1 where x: "x = (nd, h1)" by (cases x)
        note keeps = reallocation_keeps[OF Inr[unfolded x] n]
        from True Inr x ok ne show ?thesis
          by (auto simp: Emplace_def Let_def intro!: keeps)
      qed
    next
      case False
      with ok ne show ?thesis
        by (simp add: Emplace_def Let_def Capacity_def split: outcome.splits option.splits)
    qed
  qed
qed

lemma Emplace_grows:
  assumes "size_m v = Capacity v" "Emplace E pos args h v = Returns it (h', v')"
  shows "Capacity v' = max 1 (2 * Capacity v)"
proof (cases "pos = end_it v")
  case True
  with assms(2) obtain it0 where "EmplaceBack E args h v = Returns it0 (h', v')"
    by (auto simp: Emplace_def split: if_splits outcome.splits)
  from EmplaceBack_grows[OF assms(1) this] show ?thesis .
next
  case False
  let ?n = "if size_m v = 0 then 1 else Capacity v * 2"
  have n: "?n = max 1 (2 * Capacity v)" using assms(1) by (simp add: max_def)
  from Emplace_grow_inv[OF assms(2) False assms(1)] obtain nd h1 h2 d where
    "RawMemory_new E ?n h = Inr (nd, h1)" "adopt nd h2 v = Some (h', d)"
    "v' = \<lparr>data_m = d, size_m = size_m v + 1\<rparr>" by blast
  with adopt_data[of nd h2 v h' d] RawMemory_new_capacity[of E ?n h nd h1] n show ?thesis
    by (simp add: Capacity_def RawMemory_Capacity_def)
qed

lemma Erase_keeps: "keeps_capacity v (Erase E pos h v)"
  by (simp add: Erase_def Let_def Capacity_def split: option.splits)

lemma PopBack_keeps: "keeps_capacity v (PopBack h v)"
  by (simp add: PopBack_def Capacity_def split: option.splits)

lemma Reserve_keeps: "keeps_capacity v (Reserve E n h v)"
proof (cases "n \<le> Capacity v")
  case True
  then show ?thesis by (simp add: Reserve_def)
next
  case False
  then have n: "Capacity v \<le> n" by simp
  show ?thesis
  proof (cases "RawMemory_new E n h")
    case (Inl e)
    with False show ?thesis by (simp add: Reserve_def)
  next
    case (Inr x)
    obtain nd h1 where x: "x = (nd, h1)" by (cases x)
    from RawMemory_new_capacity[OF Inr[unfolded x]] n False Inr x show ?thesis
      by (auto simp: Reserve_def keeps_capacity_def unwind_def Capacity_def RawMemory_Capacity_def
          dest!: adopt_data split: outcome.splits option.splits)
  qed
qed

lemma Resize_keeps: "keeps_capacity v (Resize E n h v)"
  using Reserve_keeps[of v E n h]
  by (auto simp: Resize_def keeps_capacity_def Capacity_def split: outcome.splits option.splits)

lemma Vector_copy_ctor_capacity:
  "Vector_copy_ctor E other h = Returns c h1 \<Longrightarrow> Capacity c = size_m other"
  by (auto simp: Vector_copy_ctor_def Capacity_def RawMemory_Capacity_def
      dest!: RawMemory_new_capacity split: sum.splits outcome.splits option.splits)

lemma copy_assignment_keeps: "keeps_capacity this (copy_assignment E h this rhs)"
proof (cases rhs)
  case None
  then show ?thesis by (simp add: copy_assignment_def Capacity_def)
next
  case (Some r)
  show ?thesis
  proof (cases "Size r > RawMemory_Capacity (data_m this)")
    case True
    then show ?thesis
      using Some
      by (auto simp: copy_assignment_def keeps_capacity_def Swap_def RawMemory_Swap_def Size_def
          Capacity_def RawMemory_Capacity_def
          dest!: Vector_copy_ctor_capacity split: outcome.splits option.splits)
  next
    case False
    then show ?thesis
      using Some
      by (auto simp: copy_assignment_def keeps_capacity_def Capacity_def
          split: outcome.splits option.splits)
  qed
qed


section \<open>Moving a \<^verbatim>\<open>RawMemory\<close>\<close>

lemma RawMemory_move_ctor_source_unchanged: "snd (RawMemory_move_ctor other) = other"
  by (simp add: RawMemory_move_ctor_def)

lemma RawMemory_move_assign_source_unchanged: "snd (RawMemory_move_assign_body this rhs) = rhs"
  by (simp add: RawMemory_move_assign_body_def)

lemma RawMemory_move_assign_undefined: "RawMemory_move_assign this rhs = None"
  by (simp add: RawMemory_move_assign_def split: prod.splits)

text \<open>
  C6 says that move construction and move assignment of a \<^verbatim>\<open>RawMemory\<close> hand the block
  address and the capacity to the destination and leave the source with no block and zero
  capacity. The destination does receive both, but the source keeps them. For
  \<^verbatim>\<open>RawMemory<int> a(3); RawMemory<int> b(std::move(a));\<close> both objects hold the block at
  address 0 with capacity 3, and running the two destructors releases the block twice,
  which is undefined. The two assignments in the body of move assignment leave both sides
  of \<^verbatim>\<open>c = std::move(a)\<close> with the block and the capacity as well, and the operator then
  ends without a \<^verbatim>\<open>return\<close> statement, so that the assignment itself is undefined.
\<close>

theorem RawMemory_move_keeps_source_block:
  "RawMemory_new elem_int 3 \<lparr>blocks = [], free_slots = 3\<rparr>
     = Inr (\<lparr>buffer_m = Some 0, capacity_m = 3\<rparr>,
            \<lparr>blocks = [Some [None, None, None :: int option]], free_slots = 0\<rparr>)
   \<and> RawMemory_move_ctor \<lparr>buffer_m = Some 0, capacity_m = 3\<rparr>
     = (\<lparr>buffer_m = Some 0, capacity_m = 3\<rparr>, \<lparr>buffer_m = Some 0, capacity_m = 3\<rparr>)
   \<and> RawMemory_move_assign_body RawMemory_default \<lparr>buffer_m = Some 0, capacity_m = 3\<rparr>
     = (\<lparr>buffer_m = Some 0, capacity_m = 3\<rparr>, \<lparr>buffer_m = Some 0, capacity_m = 3\<rparr>)
   \<and> RawMemory_move_assign RawMemory_default \<lparr>buffer_m = Some 0, capacity_m = 3\<rparr> = None
   \<and> (case RawMemory_move_ctor \<lparr>buffer_m = Some 0, capacity_m = 3\<rparr> of
        (b, a) \<Rightarrow>
          (case RawMemory_dtor b \<lparr>blocks = [Some [None, None, None :: int option]], free_slots = 0\<rparr> of
             None \<Rightarrow> None
           | Some h \<Rightarrow> RawMemory_dtor a h)) = None"
  by (simp add: model_defs elem_int_def eval_nat_numeral)

section \<open>Moving a \<^verbatim>\<open>Vector\<close>\<close>

text \<open>
  C10: move-constructing a vector from \<open>v\<close> leaves the source with size 0, capacity 0 and
  no block, and the new vector has the block, the size and the capacity that \<open>v\<close> had, and
  with them its elements. The constructor does not touch the free store.
\<close>

theorem Vector_move_ctor_empties_source:
  "fst (Vector_move_ctor v) = v
   \<and> Size (fst (Vector_move_ctor v)) = Size v
   \<and> Capacity (fst (Vector_move_ctor v)) = Capacity v
   \<and> elems h (fst (Vector_move_ctor v)) = elems h v
   \<and> size_m (snd (Vector_move_ctor v)) = 0
   \<and> Capacity (snd (Vector_move_ctor v)) = 0
   \<and> buffer_m (data_m (snd (Vector_move_ctor v))) = None"
proof -
  have "Vector_move_ctor v = (v, Vector_default)"
    by (simp add: Vector_move_ctor_def Swap_def RawMemory_Swap_def Vector_default_def
        RawMemory_default_def)
  then show ?thesis
    by (simp add: Vector_default_def RawMemory_default_def Capacity_def RawMemory_Capacity_def)
qed

lemma move_assignment_destination: "fst (move_assignment this (Some rhs)) = rhs"
  by (simp add: move_assignment_def Swap_def RawMemory_Swap_def Size_def)

lemma move_assignment_source_size:
  "size_m this \<le> Capacity this \<Longrightarrow> move_assignment this (Some rhs) = (this', Some rhs') \<Longrightarrow>
   size_m rhs' \<le> Capacity rhs'"
  by (auto simp: move_assignment_def Swap_def RawMemory_Swap_def Size_def Capacity_def
      RawMemory_Capacity_def split: if_splits)

text \<open>
  C5 says that after move assignment the destination holds the source's elements and
  length and the source is left valid: its size within its capacity and the slots
  \<open>[0, size)\<close> holding constructed elements. The destination and the size bound are as
  claimed, and no element operation or allocation takes place. But when the source fits
  into the destination's capacity, the blocks are swapped and the source keeps its own
  \<^verbatim>\<open>size_\<close>: assigning \<open>vec_b\<close> (elements 1 and 2) to the empty \<open>vec_a\<close> of capacity 4 leaves
  the source with size 2 on a block whose first two slots are raw storage.
\<close>

theorem move_assignment_source_not_valid:
  "valid two_blocks vec_a \<and> valid two_blocks vec_b
   \<and> move_assignment vec_a (Some vec_b)
       = (\<lparr>data_m = \<lparr>buffer_m = Some 1, capacity_m = 2\<rparr>, size_m = 2\<rparr>,
          Some \<lparr>data_m = \<lparr>buffer_m = Some 0, capacity_m = 4\<rparr>, size_m = 2\<rparr>)
   \<and> elems two_blocks \<lparr>data_m = \<lparr>buffer_m = Some 1, capacity_m = 2\<rparr>, size_m = 2\<rparr>
       = [Some 1, Some 2]
   \<and> elems two_blocks \<lparr>data_m = \<lparr>buffer_m = Some 0, capacity_m = 4\<rparr>, size_m = 2\<rparr>
       = [None, None]
   \<and> \<not> valid two_blocks \<lparr>data_m = \<lparr>buffer_m = Some 0, capacity_m = 4\<rparr>, size_m = 2\<rparr>"
  by (simp add: model_defs example_defs eval_nat_numeral)

text \<open>
  C2 says that in every state reached by public operations \<open>size \<le> capacity\<close> and the
  slots \<open>[0, size)\<close> hold constructed elements. The run
  \<^verbatim>\<open>Vector<int> a; a.Reserve(4); Vector<int> b; b.PushBack(1); b.PushBack(2); a = std::move(b);\<close>
  ends with \<^verbatim>\<open>b\<close> of size 2 and capacity 4 on a block whose slots are all raw storage.
\<close>

theorem reachable_vector_with_raw_slots:
  "(case Reserve elem_int 4 empty_heap Vector_default of
      Returns _ (h1, a) \<Rightarrow>
        (case PushBack elem_int (Val 1) h1 Vector_default of
           Returns _ (h2, b1) \<Rightarrow>
             (case PushBack elem_int (Val 2) h2 b1 of
                Returns _ (h3, b) \<Rightarrow>
                  (case move_assignment a (Some b) of
                     (a', Some b') \<Rightarrow>
                       valid h3 a \<and> valid h3 b \<and> valid h3 a' \<and> elems h3 a' = [Some 1, Some 2]
                       \<and> Size b' = 2 \<and> Capacity b' = 4 \<and> elems h3 b' = [None, None]
                       \<and> \<not> valid h3 b'
                   | (a', None) \<Rightarrow> False)
              | Throws e s \<Rightarrow> False
              | Undefined \<Rightarrow> False)
         | Throws e s \<Rightarrow> False
         | Undefined \<Rightarrow> False)
    | Throws e s \<Rightarrow> False
    | Undefined \<Rightarrow> False)"
  by (simp add: model_defs example_defs eval_nat_numeral)

section \<open>Inserting an element of the vector into itself\<close>

text \<open>
  C4 says that \<^verbatim>\<open>Emplace\<close> without growth first builds the temporary from the arguments,
  then constructs a copy of the last element in the trailing slot, shifts, and assigns the
  temporary, so that inserting a value that aliases an element of the container gives the
  correctly shifted sequence. The source constructs the trailing slot first, by a move from
  the last element (\<^verbatim>\<open>std::forward<T>(data_[size_ - 1])\<close>), and builds the temporary
  afterwards. On the vector holding \<open>[1]\<close> and \<open>[2]\<close> with capacity 4,
  \<^verbatim>\<open>v.Insert(v.begin(), v[1])\<close> reads \<^verbatim>\<open>v[1]\<close> after it was moved from: the result is
  \<open>[], [1], [2]\<close>, not \<open>[2], [1], [2]\<close>. Inserting \<^verbatim>\<open>v[0]\<close>, which is not the last
  element, gives \<open>[1], [1], [2]\<close> as it should.
\<close>

theorem Insert_alias_of_last_element:
  "valid nested_heap nested_vec
   \<and> elems nested_heap nested_vec = [Some [1], Some [2]]
   \<and> arg_value nested_heap (Ref (Ptr (Some 0) 1)) = Some [2]
   \<and> Insert elem_int_vector (begin_it nested_vec) (Ref (Ptr (Some 0) 1)) nested_heap nested_vec
       = Returns (Ptr (Some 0) 0)
           (\<lparr>blocks = [Some [Some [], Some [1], Some [2], None]], free_slots = 0\<rparr>,
            \<lparr>data_m = \<lparr>buffer_m = Some 0, capacity_m = 4\<rparr>, size_m = 3\<rparr>)
   \<and> elems \<lparr>blocks = [Some [Some [], Some [1], Some [2], None]], free_slots = 0\<rparr>
         \<lparr>data_m = \<lparr>buffer_m = Some 0, capacity_m = 4\<rparr>, size_m = 3\<rparr>
       \<noteq> [Some [2], Some [1], Some [2]]
   \<and> Insert elem_int_vector (begin_it nested_vec) (Ref (Ptr (Some 0) 0)) nested_heap nested_vec
       = Returns (Ptr (Some 0) 0)
           (\<lparr>blocks = [Some [Some [1], Some [1], Some [2], None]], free_slots = 0\<rparr>,
            \<lparr>data_m = \<lparr>buffer_m = Some 0, capacity_m = 4\<rparr>, size_m = 3\<rparr>)"
  by (simp add: model_defs example_defs eval_nat_numeral)
section \<open>\<^verbatim>\<open>Reserve\<close>\<close>

lemma granted_wrapping_request_1: "sizeof E = 4 \<Longrightarrow> granted E wrapping_request_1 = 1"
  by (simp add: granted_def size_t_def SIZE_MAX_def wrapping_request_1_def)


lemma wrapping_request_1_large:
  "\<not> wrapping_request_1 \<le> 2" "wrapping_request_1 \<noteq> 0" "wrapping_request_1 \<noteq> 2"
  by (simp_all add: wrapping_request_1_def)


lemma Reserve_wrapping_request_1:
  "Reserve elem_int wrapping_request_1 two_blocks vec_b = Undefined"
  using wrapping_request_1_large
  by (simp add: Reserve_def RawMemory_new_eq granted_wrapping_request_1 alloc_heap_def
      model_defs example_defs eval_nat_numeral)





section \<open>\<^verbatim>\<open>Resize\<close>: the claim\<close>

text \<open>
  C8 as stated lets \<^verbatim>\<open>Resize(n)\<close> with \<open>n\<close> beyond the capacity reallocate by the growth
  policy, \<open>max(1, 2 \<times> capacity)\<close>. It calls \<^verbatim>\<open>Reserve(n)\<close>: on the full vector \<open>vec_b\<close>
  of capacity 2, \<^verbatim>\<open>Resize(3)\<close> gives capacity 3, where an append, which does follow the
  growth policy, gives capacity 4.
\<close>

theorem Resize_capacity_is_not_doubled:
  "Capacity vec_b = 2 \<and> size_m vec_b = 2
   \<and> Resize elem_int 3 two_blocks vec_b
       = Returns ()
           (\<lparr>blocks = [Some [None, None, None, None], None, Some [Some 1, Some 2, Some 0]],
              free_slots = 9\<rparr>,
            \<lparr>data_m = \<lparr>buffer_m = Some 2, capacity_m = 3\<rparr>, size_m = 3\<rparr>)
   \<and> (3 :: nat) \<noteq> max 1 (2 * Capacity vec_b)
   \<and> PushBack elem_int (Val 0) two_blocks vec_b
       = Returns ()
           (\<lparr>blocks = [Some [None, None, None, None], None, Some [Some 1, Some 2, Some 0, None]],
              free_slots = 8\<rparr>,
            \<lparr>data_m = \<lparr>buffer_m = Some 2, capacity_m = 4\<rparr>, size_m = 3\<rparr>)"
  by (simp add: model_defs example_defs eval_nat_numeral)

text \<open>
  The reallocation of \<^verbatim>\<open>Resize\<close> is that of \<^verbatim>\<open>Reserve\<close>, with its byte count computed
  in \<^verbatim>\<open>size_t\<close>: \<^verbatim>\<open>Resize(2^62 + 1)\<close> on \<open>vec_b\<close> is undefined.
\<close>

lemma Resize_wrapping_request_1:
  "Resize elem_int wrapping_request_1 two_blocks vec_b = Undefined"
proof -
  have "size_m vec_b = 2" by (simp add: vec_b_def)
  with wrapping_request_1_large show ?thesis
    by (simp add: Resize_def Reserve_wrapping_request_1)
qed

text \<open>
  C8, amended: \<^verbatim>\<open>Resize(n)\<close> with \<open>n < size\<close> destroys exactly the trailing \<open>size - n\<close>
  elements and leaves the first \<open>n\<close> and the capacity unchanged; with \<open>n = size\<close> it
  changes nothing; with \<open>n > size\<close> the capacity becomes \<open>max capacity n\<close> (a reallocation
  to exactly \<open>n\<close> slots when \<open>n\<close> exceeds the capacity), the first \<open>size\<close> elements keep
  their values and the \<open>n - size\<close> new trailing elements are value-initialised. The last
  case returns when \<open>T()\<close> does not throw and, if a reallocation is needed, the byte count
  \<open>n * sizeof(T)\<close> does not exceed \<open>SIZE_MAX\<close>, the allocation succeeds and no element throws
  when it is taken to the new block.
\<close>

theorem Resize_spec:
  assumes "valid h v" "0 < sizeof E"
  shows "(n < size_m v \<longrightarrow>
            (\<exists>h'. Resize E n h v = Returns () (h', v\<lparr>size_m := n\<rparr>)
               \<and> valid h' (v\<lparr>size_m := n\<rparr>)
               \<and> Capacity (v\<lparr>size_m := n\<rparr>) = Capacity v
               \<and> elems h' (v\<lparr>size_m := n\<rparr>) = take n (elems h v)
               \<and> elems h' v = take n (elems h v) @ replicate (size_m v - n) None))
       \<and> (n = size_m v \<longrightarrow> Resize E n h v = Returns () (h, v))
       \<and> (size_m v < n \<longrightarrow> \<not> init_throws E \<longrightarrow>
            (n \<le> Capacity v \<or>
             (n * sizeof E \<le> SIZE_MAX \<and> n \<le> free_slots h
              \<and> \<not> transfer_throws E (elems h v))) \<longrightarrow>
            (\<exists>h' v'. Resize E n h v = Returns () (h', v') \<and> valid h' v' \<and> Size v' = n
               \<and> Capacity v' = max (Capacity v) n
               \<and> elems h' v' = elems h v @ replicate (n - size_m v) (Some (init E))))"
proof (intro conjI impI)
  assume n: "n < size_m v"
  from Resize_shrinks[OF assms(1) n, of E] obtain h' where
    r: "Resize E n h v = Returns () (h', v\<lparr>size_m := n\<rparr>)" "valid h' (v\<lparr>size_m := n\<rparr>)"
       "elems h' v = take n (elems h v) @ replicate (size_m v - n) None" by blast
  have "elems h' (v\<lparr>size_m := n\<rparr>) = take n (elems h' v)"
    using n by (simp add: elems_shrink)
  also have "\<dots> = take n (elems h v)"
    using r(3) n length_elems[OF assms(1)] by simp
  finally show "\<exists>h'. Resize E n h v = Returns () (h', v\<lparr>size_m := n\<rparr>)
               \<and> valid h' (v\<lparr>size_m := n\<rparr>)
               \<and> Capacity (v\<lparr>size_m := n\<rparr>) = Capacity v
               \<and> elems h' (v\<lparr>size_m := n\<rparr>) = take n (elems h v)
               \<and> elems h' v = take n (elems h v) @ replicate (size_m v - n) None"
    using r by (intro exI[of _ h']) (simp add: Capacity_def)
next
  assume "n = size_m v"
  then show "Resize E n h v = Returns () (h, v)" by (simp add: Resize_same)
next
  assume a: "size_m v < n" "\<not> init_throws E"
    "n \<le> Capacity v
     \<or> (n * sizeof E \<le> SIZE_MAX \<and> n \<le> free_slots h \<and> \<not> transfer_throws E (elems h v))"
  then have "n \<le> Capacity v
     \<or> (granted E n = n \<and> n \<le> free_slots h \<and> \<not> transfer_throws E (elems h v))"
    using granted_eq[OF assms(2), of n] by auto
  from Resize_grows[OF assms(1) a(1,2) this] show "\<exists>h' v'. Resize E n h v = Returns () (h', v') \<and> valid h' v'
               \<and> Size v' = n \<and> Capacity v' = max (Capacity v) n
               \<and> elems h' v' = elems h v @ replicate (n - size_m v) (Some (init E))"
    by (simp add: Size_def)
qed

theorem Resize_spec_witness:
  "valid two_blocks vec_b \<and> 0 < sizeof elem_int
   \<and> size_m vec_b < 5 \<and> \<not> init_throws elem_int
   \<and> 5 * sizeof elem_int \<le> SIZE_MAX \<and> 5 \<le> free_slots two_blocks
   \<and> \<not> transfer_throws elem_int (elems two_blocks vec_b)
   \<and> (\<exists>h'. Resize elem_int 1 two_blocks vec_b = Returns () (h', vec_b\<lparr>size_m := 1\<rparr>)
         \<and> valid h' (vec_b\<lparr>size_m := 1\<rparr>)
         \<and> Capacity (vec_b\<lparr>size_m := 1\<rparr>) = 2
         \<and> elems h' (vec_b\<lparr>size_m := 1\<rparr>) = [Some 1]
         \<and> elems h' vec_b = [Some 1, None])
   \<and> Resize elem_int 2 two_blocks vec_b = Returns () (two_blocks, vec_b)
   \<and> (\<exists>h' v'. Resize elem_int 5 two_blocks vec_b = Returns () (h', v') \<and> valid h' v'
         \<and> Size v' = 5 \<and> Capacity v' = 5
         \<and> elems h' v' = [Some 1, Some 2, Some 0, Some 0, Some 0])"
proof -
  have v: "valid two_blocks vec_b" by (simp add: model_defs example_defs)
  have e: "elems two_blocks vec_b = [Some 1, Some 2]" by (simp add: model_defs example_defs)
  have z: "0 < sizeof elem_int" by (simp add: elem_int_def)
  have b: "5 * sizeof elem_int \<le> SIZE_MAX" by (simp add: elem_int_def SIZE_MAX_def)
  have t: "\<not> transfer_throws elem_int (elems two_blocks vec_b)"
    unfolding e by (simp add: transfer_throws_def some_move_throws_def elem_int_def)
  have c: "Capacity vec_b = 2" "free_slots two_blocks = 10" "size_m vec_b = 2"
    "\<not> init_throws elem_int" "init elem_int = 0"
    by (simp_all add: model_defs example_defs)
  show ?thesis
    using Resize_spec[OF v z, of 1] Resize_spec[OF v z, of 2] Resize_spec[OF v z, of 5]
      v z b t e c
    by (simp add: eval_nat_numeral)
qed

section \<open>\<^verbatim>\<open>EmplaceBack\<close>: a throwing constructor\<close>

text \<open>
  C1: when the constructor of the new element throws, in the path that grows the storage
  or in the path with spare capacity, \<^verbatim>\<open>EmplaceBack\<close> ends with an exception and the
  vector is as before: the same block, size and capacity, and the same elements. (In the
  growing path the allocation comes first; if it fails, the exception is
  \<^verbatim>\<open>std::bad_alloc\<close>, with the same outcome for the vector.)
\<close>

theorem EmplaceBack_constructor_throws:
  assumes "valid h v" "arg_value h args = Some c" "throws E c"
  shows "\<exists>e h'. EmplaceBack E args h v = Throws e (h', v)
           \<and> valid h' v \<and> elems h' v = elems h v
           \<and> (e = ElemThrew
               \<or> (e = BadAlloc \<and> size_m v = Capacity v \<and> free_slots h < max 1 (2 * Capacity v)))"
proof (cases "size_m v = Capacity v")
  case True
  from EmplaceBack_full_throws[OF assms(1,2,3) True] True show ?thesis by auto
next
  case False
  from EmplaceBack_spare[OF assms(1,2) False, of E] assms(1,3) show ?thesis by auto
qed

theorem EmplaceBack_constructor_throws_witness:
  "valid two_blocks vec_b \<and> size_m vec_b = Capacity vec_b
   \<and> valid two_blocks vec_a \<and> size_m vec_a < Capacity vec_a
   \<and> arg_value two_blocks (Val 13) = Some 13 \<and> throws elem_throwing 13
   \<and> (\<exists>e h'. EmplaceBack elem_throwing (Val 13) two_blocks vec_b = Throws e (h', vec_b)
         \<and> valid h' vec_b \<and> elems h' vec_b = [Some 1, Some 2] \<and> e = ElemThrew)
   \<and> (\<exists>e h'. EmplaceBack elem_throwing (Val 13) two_blocks vec_a = Throws e (h', vec_a)
         \<and> valid h' vec_a \<and> elems h' vec_a = [] \<and> e = ElemThrew)"
proof -
  have vb: "valid two_blocks vec_b" and va: "valid two_blocks vec_a"
    by (simp_all add: model_defs example_defs)
  have a: "arg_value two_blocks (Val 13) = Some (13 :: int)" by (simp add: arg_value_def)
  have t: "throws elem_throwing 13" by (simp add: elem_throwing_def)
  have e: "elems two_blocks vec_b = [Some 1, Some 2]" "elems two_blocks vec_a = []"
    "size_m vec_b = Capacity vec_b" "size_m vec_a < Capacity vec_a"
    "free_slots two_blocks = 10" "Capacity vec_b = 2"
    by (simp_all add: model_defs example_defs)
  show ?thesis
    using EmplaceBack_constructor_throws[OF vb a t] EmplaceBack_constructor_throws[OF va a t]
      vb va a t e
    by auto
qed

section \<open>\<^verbatim>\<open>Insert\<close> followed by \<^verbatim>\<open>Erase\<close>\<close>




section \<open>Growth policy\<close>

text \<open>
  Two operations hand a whole buffer over to another vector and may leave a vector with
  less capacity than it had: \<^verbatim>\<open>Swap\<close>, and with it move construction (for its source)
  and move assignment. They are the reassignments of a vector as a whole.
\<close>

lemma Swap_exchanges_capacity:
  "Swap v other = (v', other') \<Longrightarrow> Capacity v' = Capacity other \<and> Capacity other' = Capacity v"
  by (auto simp: Swap_def RawMemory_Swap_def Capacity_def RawMemory_Capacity_def)

lemma move_assignment_exchanges_capacity:
  "move_assignment this (Some rhs) = (this', Some rhs')
     \<Longrightarrow> Capacity this' = Capacity rhs \<and> Capacity rhs' = Capacity this"
  by (auto simp: move_assignment_def Swap_def RawMemory_Swap_def Capacity_def
      RawMemory_Capacity_def split: if_splits)

text \<open>
  C3: for every vector, when \<^verbatim>\<open>EmplaceBack\<close>, \<^verbatim>\<open>PushBack\<close>, \<^verbatim>\<open>Emplace\<close> or
  \<^verbatim>\<open>Insert\<close> finds the size equal to the capacity and returns, the capacity of the vector
  is exactly \<open>max 1 (2 * old capacity)\<close>; and after \<^verbatim>\<open>EmplaceBack\<close>, \<^verbatim>\<open>PushBack\<close>,
  \<^verbatim>\<open>Emplace\<close>, \<^verbatim>\<open>Insert\<close>, \<^verbatim>\<open>Erase\<close>, \<^verbatim>\<open>PopBack\<close>, \<^verbatim>\<open>Resize\<close>, \<^verbatim>\<open>Reserve\<close> and
  copy assignment, whether the call returns or throws, the capacity is not below the old
  one. The operations left out are those that reassign the vector as a whole.
\<close>

theorem capacity_doubles_and_never_shrinks:
  "(size_m v = Capacity v \<longrightarrow>
       (EmplaceBack E arg h v = Returns it1 (h1, v1) \<longrightarrow> Capacity v1 = max 1 (2 * Capacity v))
     \<and> (PushBack E arg h v = Returns u (h2, v2) \<longrightarrow> Capacity v2 = max 1 (2 * Capacity v))
     \<and> (Emplace E pos arg h v = Returns it3 (h3, v3) \<longrightarrow> Capacity v3 = max 1 (2 * Capacity v))
     \<and> (Insert E pos arg h v = Returns it4 (h4, v4) \<longrightarrow> Capacity v4 = max 1 (2 * Capacity v)))
   \<and> keeps_capacity v (EmplaceBack E arg h v)
   \<and> keeps_capacity v (PushBack E arg h v)
   \<and> keeps_capacity v (Emplace E pos arg h v)
   \<and> keeps_capacity v (Insert E pos arg h v)
   \<and> keeps_capacity v (Erase E pos h v)
   \<and> keeps_capacity v (PopBack h v)
   \<and> keeps_capacity v (Resize E n h v)
   \<and> keeps_capacity v (Reserve E n h v)
   \<and> keeps_capacity v (copy_assignment E h v rhs)"
proof -
  have grow: "size_m v = Capacity v \<longrightarrow>
       (EmplaceBack E arg h v = Returns it1 (h1, v1) \<longrightarrow> Capacity v1 = max 1 (2 * Capacity v))
     \<and> (PushBack E arg h v = Returns u (h2, v2) \<longrightarrow> Capacity v2 = max 1 (2 * Capacity v))
     \<and> (Emplace E pos arg h v = Returns it3 (h3, v3) \<longrightarrow> Capacity v3 = max 1 (2 * Capacity v))
     \<and> (Insert E pos arg h v = Returns it4 (h4, v4) \<longrightarrow> Capacity v4 = max 1 (2 * Capacity v))"
    using EmplaceBack_grows[of v E arg h it1 h1 v1] PushBack_grows[of v E arg h u h2 v2]
      Emplace_grows[of v E pos arg h it3 h3 v3] Emplace_grows[of v E pos arg h it4 h4 v4]
    unfolding Insert_def by blast
  have ins: "keeps_capacity v (Insert E pos arg h v)"
    unfolding Insert_def by (rule Emplace_keeps)
  from grow ins show ?thesis
    by (intro conjI EmplaceBack_keeps PushBack_keeps Emplace_keeps Erase_keeps PopBack_keeps
        Resize_keeps Reserve_keeps copy_assignment_keeps)
qed

theorem capacity_doubles_and_never_shrinks_witness:
  "size_m vec_b = Capacity vec_b
   \<and> EmplaceBack elem_int (Val 99) two_blocks vec_b
       = Returns (Ptr (Some 2) 2)
           (\<lparr>blocks = [Some [None, None, None, None], None, Some [Some 1, Some 2, Some 99, None]],
              free_slots = 8\<rparr>,
            \<lparr>data_m = \<lparr>buffer_m = Some 2, capacity_m = 4\<rparr>, size_m = 3\<rparr>)
   \<and> PushBack elem_int (Val 99) two_blocks vec_b
       = Returns ()
           (\<lparr>blocks = [Some [None, None, None, None], None, Some [Some 1, Some 2, Some 99, None]],
              free_slots = 8\<rparr>,
            \<lparr>data_m = \<lparr>buffer_m = Some 2, capacity_m = 4\<rparr>, size_m = 3\<rparr>)
   \<and> Emplace elem_int (Ptr (Some 1) 1) (Val 99) two_blocks vec_b
       = Returns (Ptr (Some 2) 1)
           (\<lparr>blocks = [Some [None, None, None, None], None, Some [Some 1, Some 99, Some 2, None]],
              free_slots = 8\<rparr>,
            \<lparr>data_m = \<lparr>buffer_m = Some 2, capacity_m = 4\<rparr>, size_m = 3\<rparr>)
   \<and> Insert elem_int (Ptr (Some 1) 1) (Val 99) two_blocks vec_b
       = Returns (Ptr (Some 2) 1)
           (\<lparr>blocks = [Some [None, None, None, None], None, Some [Some 1, Some 99, Some 2, None]],
              free_slots = 8\<rparr>,
            \<lparr>data_m = \<lparr>buffer_m = Some 2, capacity_m = 4\<rparr>, size_m = 3\<rparr>)
   \<and> Capacity \<lparr>data_m = \<lparr>buffer_m = Some 2, capacity_m = 4\<rparr>, size_m = 3\<rparr>
       = max 1 (2 * Capacity vec_b)
   \<and> keeps_capacity vec_b (Erase elem_int (Ptr (Some 1) 1) two_blocks vec_b)
   \<and> keeps_capacity vec_b (PopBack two_blocks vec_b)
   \<and> keeps_capacity vec_b (Resize elem_int 3 two_blocks vec_b)
   \<and> keeps_capacity vec_b (Reserve elem_int 3 two_blocks vec_b)
   \<and> keeps_capacity vec_b (copy_assignment elem_int two_blocks vec_b (Some vec_a))"
proof -
  have s: "size_m vec_b = Capacity vec_b" by (simp add: model_defs example_defs)
  have eb: "EmplaceBack elem_int (Val 99) two_blocks vec_b
       = Returns (Ptr (Some 2) 2)
           (\<lparr>blocks = [Some [None, None, None, None], None, Some [Some 1, Some 2, Some 99, None]],
              free_slots = 8\<rparr>,
            \<lparr>data_m = \<lparr>buffer_m = Some 2, capacity_m = 4\<rparr>, size_m = 3\<rparr>)"
    by (simp add: model_defs example_defs eval_nat_numeral)
  have pb: "PushBack elem_int (Val 99) two_blocks vec_b
       = Returns ()
           (\<lparr>blocks = [Some [None, None, None, None], None, Some [Some 1, Some 2, Some 99, None]],
              free_slots = 8\<rparr>,
            \<lparr>data_m = \<lparr>buffer_m = Some 2, capacity_m = 4\<rparr>, size_m = 3\<rparr>)"
    by (simp add: PushBack_def eb)
  have em: "Emplace elem_int (Ptr (Some 1) 1) (Val 99) two_blocks vec_b
       = Returns (Ptr (Some 2) 1)
           (\<lparr>blocks = [Some [None, None, None, None], None, Some [Some 1, Some 99, Some 2, None]],
              free_slots = 8\<rparr>,
            \<lparr>data_m = \<lparr>buffer_m = Some 2, capacity_m = 4\<rparr>, size_m = 3\<rparr>)"
    by (simp add: model_defs example_defs eval_nat_numeral)
  have ins: "Insert elem_int (Ptr (Some 1) 1) (Val 99) two_blocks vec_b
       = Returns (Ptr (Some 2) 1)
           (\<lparr>blocks = [Some [None, None, None, None], None, Some [Some 1, Some 99, Some 2, None]],
              free_slots = 8\<rparr>,
            \<lparr>data_m = \<lparr>buffer_m = Some 2, capacity_m = 4\<rparr>, size_m = 3\<rparr>)"
    unfolding Insert_def by (rule em)
  from capacity_doubles_and_never_shrinks[where v = vec_b and E = elem_int
      and arg = "Val 99" and h = two_blocks and pos = "Ptr (Some 1) 1" and n = 3
      and rhs = "Some vec_a" and
      ?v1.0 = "\<lparr>data_m = \<lparr>buffer_m = Some 2, capacity_m = 4\<rparr>, size_m = 3\<rparr>"]
    s eb pb em ins
  show ?thesis by blast
qed

end
